theory Spec2Isabelle
  imports Main "HOL-Library.Word"
begin

unbundle bit_operations_syntax

section \<open>The dynamic memory manager of lab-3-memory (memmgr.c)\<close>

text \<open>
  The manager keeps an implicit free list in a data segment that another module
  (dataseg) provides. A heap word (\<^verbatim>\<open>TYPE\<close>, \<^verbatim>\<open>unsigned long\<close>) is eight bytes, and
  so are pointers and \<^verbatim>\<open>size_t\<close>: all of them are \<open>64 word\<close> here, with the
  wrap-around of unsigned arithmetic built in.

  Memory is modelled the way the code uses it: every access goes through the macros
  \<^verbatim>\<open>GET\<close> and \<^verbatim>\<open>PUT\<close>, which read and write one \<^verbatim>\<open>TYPE\<close> at a byte address, and
  these addresses differ by multiples of eight (the heap bounds are multiples of 32,
  sizes are multiples of eight). The store therefore maps a byte address to the word
  stored there, and two different addresses never overlap.
\<close>

subsection \<open>Words, tags and the macros\<close>

type_synonym addr = "64 word"
type_synonym heap_word = "64 word"

definition NULL :: addr where
  "NULL = 0"

definition TYPE_SIZE :: "64 word" where
  "TYPE_SIZE = 8"

definition ALLOC :: heap_word where
  "ALLOC = 1"

definition FREE :: heap_word where
  "FREE = 0"

definition STATUS_MASK :: heap_word where
  "STATUS_MASK = 7"

definition SIZE_MASK :: heap_word where
  "SIZE_MASK = NOT STATUS_MASK"

definition CHUNKSIZE :: "64 word" where
  "CHUNKSIZE = 1 * push_bit 12 1"

definition BS :: "64 word" where
  "BS = 32"

definition PREV_PTR :: "addr \<Rightarrow> addr" where
  "PREV_PTR p = p - TYPE_SIZE"

definition NEXT_PTR :: "addr \<Rightarrow> addr" where
  "NEXT_PTR p = p + TYPE_SIZE"

definition PACK :: "heap_word \<Rightarrow> heap_word \<Rightarrow> heap_word" where
  "PACK sz status = sz OR status"

definition SIZE :: "heap_word \<Rightarrow> heap_word" where
  "SIZE v = v AND SIZE_MASK"

definition STATUS :: "heap_word \<Rightarrow> heap_word" where
  "STATUS v = v AND STATUS_MASK"

definition HDRP :: "addr \<Rightarrow> addr" where
  "HDRP bp = PREV_PTR bp"

subsection \<open>The allocator's global state\<close>

datatype AllocationPolicy = ap_FirstFit | ap_NextFit | ap_BestFit

datatype error = AssertFailed | NullCall | SIGSEGV | PANIC string

text \<open>
  The file's global variables, the store, and the state \<open>dseg\<close> of the data segment
  module. The function pointer \<^verbatim>\<open>get_free_block\<close> is \<open>None\<close> while it is \<^verbatim>\<open>NULL\<close>
  and otherwise names the policy whose locator it points to. The log level only
  drives printing and is left out.
\<close>

record 'd mm_state =
  ds_heap_start :: addr
  ds_heap_brk :: addr
  heap_start :: addr
  heap_end :: addr
  PAGESIZE :: int
  get_free_block :: "AllocationPolicy option"
  mm_initialized :: int
  nf_ptr :: addr
  mem :: "addr \<Rightarrow> heap_word"
  dseg :: 'd

text \<open>
  The interface of the data segment module (dataseg.h), taken as a parameter of the
  model: the three calls the manager makes, over a state \<open>'d\<close> of the provider's own.
  \<^verbatim>\<open>ds_heap_stat\<close> yields the start and the current end of the segment.
\<close>

record 'd dataseg =
  ds_heap_stat :: "'d \<Rightarrow> addr \<times> addr"
  ds_getpagesize :: "'d \<Rightarrow> int"
  ds_sbrk :: "64 word \<Rightarrow> 'd \<Rightarrow> addr \<times> 'd"

text \<open>
  What a call yields: \<open>None\<close> when it does not return (a scan that runs forever),
  \<open>Some (Inl e)\<close> when the process is terminated (a failed \<^verbatim>\<open>assert\<close>, a call
  through a \<^verbatim>\<open>NULL\<close> function pointer, a fill of memory outside the data segment,
  \<^verbatim>\<open>PANIC\<close>), \<open>Some (Inr v)\<close> when it returns.
\<close>

type_synonym 'a outcome = "(error + 'a) option"

definition GET :: "'d mm_state \<Rightarrow> addr \<Rightarrow> heap_word" where
  "GET s p = mem s p"

definition GET_SIZE :: "'d mm_state \<Rightarrow> addr \<Rightarrow> heap_word" where
  "GET_SIZE s p = SIZE (GET s p)"

definition GET_STATUS :: "'d mm_state \<Rightarrow> addr \<Rightarrow> heap_word" where
  "GET_STATUS s p = STATUS (GET s p)"

definition PUT :: "addr \<Rightarrow> heap_word \<Rightarrow> 'd mm_state \<Rightarrow> 'd mm_state" where
  "PUT p val s = s\<lparr>mem := (mem s)(p := val)\<rparr>"

definition NEXT_BLKP :: "'d mm_state \<Rightarrow> addr \<Rightarrow> addr" where
  "NEXT_BLKP s p = p + GET_SIZE s (HDRP p)"

definition PREV_BLKP :: "'d mm_state \<Rightarrow> addr \<Rightarrow> addr" where
  "PREV_BLKP s p = p - GET_SIZE s (PREV_PTR (HDRP p))"

definition HEAP_SIZE :: "'d mm_state \<Rightarrow> 64 word" where
  "HEAP_SIZE s = heap_end s - heap_start s"

definition FTRP :: "'d mm_state \<Rightarrow> addr \<Rightarrow> addr" where
  "FTRP s bp = PREV_PTR (HDRP bp + GET_SIZE s (HDRP bp))"

text \<open>
  The macros above do byte arithmetic: their arguments are \<^verbatim>\<open>void*\<close>. In \<^verbatim>\<open>mm_free\<close>
  the same macros are applied to \<^verbatim>\<open>prev_bp\<close> and \<^verbatim>\<open>next_bp\<close>, which are declared
  \<^verbatim>\<open>TYPE*\<close>: there C scales every added or subtracted integer by \<^verbatim>\<open>sizeof(TYPE)\<close>.
  \<open>PREV_PTR_T\<close>, \<open>HDRP_T\<close> and \<open>FTRP_T\<close> are the expansions at that pointer type.
\<close>

definition PREV_PTR_T :: "addr \<Rightarrow> addr" where
  "PREV_PTR_T p = p - 8 * TYPE_SIZE"

definition HDRP_T :: "addr \<Rightarrow> addr" where
  "HDRP_T bp = PREV_PTR_T bp"

definition FTRP_T :: "'d mm_state \<Rightarrow> addr \<Rightarrow> addr" where
  "FTRP_T s bp = PREV_PTR_T (HDRP_T bp + 8 * GET_SIZE s (HDRP_T bp))"

subsection \<open>mm_init\<close>

text \<open>
  The \<^verbatim>\<open>default\<close> case of the \<^verbatim>\<open>switch\<close> over the policy cannot be reached with a value
  of the enumeration. The second result of each \<^verbatim>\<open>ds_sbrk\<close> call is the provider's
  new state; the value returned by \<^verbatim>\<open>ds_sbrk(CHUNKSIZE)\<close> is not used.
\<close>

definition mm_init :: "'d dataseg \<Rightarrow> AllocationPolicy \<Rightarrow> 'd mm_state \<Rightarrow> error + 'd mm_state" where
  "mm_init D ap s =
    (let s = s\<lparr>get_free_block := Some ap\<rparr>;
         (start, brk) = ds_heap_stat D (dseg s);
         s = s\<lparr>ds_heap_start := start, ds_heap_brk := brk, PAGESIZE := ds_getpagesize D (dseg s)\<rparr>
     in if ds_heap_start s = NULL then Inl (PANIC ''Data segment not initialized.'')
        else if ds_heap_start s \<noteq> ds_heap_brk s then Inl (PANIC ''Heap not clean.'')
        else if PAGESIZE s = 0 then Inl (PANIC ''Reported pagesize == 0.'')
        else
          let (r1, d1) = ds_sbrk D CHUNKSIZE (dseg s);
              (r2, d2) = ds_sbrk D 0 d1;
              s = s\<lparr>dseg := d2, ds_heap_brk := r2\<rparr>
          in if ds_heap_brk s = - 1 then Inl (PANIC ''Cannot extend heap'')
             else
               let s = s\<lparr>heap_start := (ds_heap_start s + BS) div BS * BS\<rparr>;
                   s = s\<lparr>heap_end := (ds_heap_brk s - 1) div BS * BS\<rparr>;
                   s = PUT (PREV_PTR (heap_start s)) (PACK 0 ALLOC) s;
                   s = PUT (heap_end s) (PACK 0 ALLOC) s;
                   s = PUT (heap_start s) (PACK (HEAP_SIZE s) FREE) s;
                   s = PUT (PREV_PTR (heap_end s)) (PACK (HEAP_SIZE s) FREE) s
               in Inr (s\<lparr>mm_initialized := 1\<rparr>))"

subsection \<open>The three locators\<close>

text \<open>
  Each scan is a \<^verbatim>\<open>while\<close> loop that advances by the size read from the current tag.
  Nothing in the loop bounds the number of rounds, so each is a partial function:
  \<open>None\<close> is the scan that never leaves the loop.
\<close>

partial_function (option) ff_loop :: "'d mm_state \<Rightarrow> 64 word \<Rightarrow> addr \<Rightarrow> addr option" where
  "ff_loop s sz hdrp =
    (if hdrp < heap_end s \<and> (sz > GET_SIZE s hdrp \<or> GET_STATUS s hdrp = ALLOC)
     then ff_loop s sz (hdrp + GET_SIZE s hdrp)
     else Some hdrp)"

declare ff_loop.simps [code]

definition ff_get_free_block :: "64 word \<Rightarrow> 'd mm_state \<Rightarrow> addr outcome" where
  "ff_get_free_block sz s =
    (if mm_initialized s = 0 then Some (Inl AssertFailed)
     else case ff_loop s sz (heap_start s) of
            None \<Rightarrow> None
          | Some hdrp \<Rightarrow>
              if hdrp < heap_end s then Some (Inr (NEXT_PTR hdrp)) else Some (Inr NULL))"

partial_function (option) nf_loop :: "64 word \<Rightarrow> 'd mm_state \<Rightarrow> 'd mm_state option" where
  "nf_loop sz s =
    (if nf_ptr s < heap_end s \<and> (sz > GET_SIZE s (nf_ptr s) \<or> GET_STATUS s (nf_ptr s) = ALLOC)
     then nf_loop sz (s\<lparr>nf_ptr := nf_ptr s + GET_SIZE s (nf_ptr s)\<rparr>)
     else Some s)"

declare nf_loop.simps [code]

definition nf_get_free_block :: "64 word \<Rightarrow> 'd mm_state \<Rightarrow> (addr \<times> 'd mm_state) outcome" where
  "nf_get_free_block sz s =
    (if mm_initialized s = 0 then Some (Inl AssertFailed)
     else
       let s = (if nf_ptr s = NULL then s\<lparr>nf_ptr := heap_start s\<rparr> else s)
       in case nf_loop sz s of
            None \<Rightarrow> None
          | Some s \<Rightarrow>
              if nf_ptr s < heap_end s then Some (Inr (NEXT_PTR (nf_ptr s), s))
              else Some (Inr (NULL, s\<lparr>nf_ptr := NULL\<rparr>)))"

partial_function (option) bf_loop ::
    "'d mm_state \<Rightarrow> 64 word \<Rightarrow> addr \<Rightarrow> 64 word \<Rightarrow> addr \<Rightarrow> addr option" where
  "bf_loop s sz hdrp minSize bf_ptr =
    (if hdrp < heap_end s
     then
       if sz \<le> GET_SIZE s hdrp \<and> GET_STATUS s hdrp = FREE \<and> GET_SIZE s hdrp < minSize
       then bf_loop s sz (hdrp + GET_SIZE s hdrp) (GET_SIZE s hdrp) hdrp
       else bf_loop s sz (hdrp + GET_SIZE s hdrp) minSize bf_ptr
     else Some bf_ptr)"

declare bf_loop.simps [code]

definition bf_get_free_block :: "64 word \<Rightarrow> 'd mm_state \<Rightarrow> addr outcome" where
  "bf_get_free_block sz s =
    (if mm_initialized s = 0 then Some (Inl AssertFailed)
     else case bf_loop s sz (heap_start s) (HEAP_SIZE s) NULL of
            None \<Rightarrow> None
          | Some bf_ptr \<Rightarrow>
              if bf_ptr \<noteq> NULL then Some (Inr (NEXT_PTR bf_ptr)) else Some (Inr NULL))"

text \<open>The call through the function pointer \<^verbatim>\<open>get_free_block\<close>.\<close>

definition call_get_free_block :: "64 word \<Rightarrow> 'd mm_state \<Rightarrow> (addr \<times> 'd mm_state) outcome" where
  "call_get_free_block sz s =
    (case get_free_block s of
       None \<Rightarrow> Some (Inl NullCall)
     | Some ap_FirstFit \<Rightarrow> map_option (map_sum id (\<lambda>bp. (bp, s))) (ff_get_free_block sz s)
     | Some ap_NextFit \<Rightarrow> nf_get_free_block sz s
     | Some ap_BestFit \<Rightarrow> map_option (map_sum id (\<lambda>bp. (bp, s))) (bf_get_free_block sz s))"

subsection \<open>mm_malloc, mm_calloc\<close>

text \<open>
  The body of \<^verbatim>\<open>mm_malloc\<close> in its three steps: \<open>adjust\<close> is the adjusted block size
  (step 1), \<open>place\<close> the writes when the locator has found a block (step 2), and
  \<open>extend\<close> the path taken when it has not (step 3).
\<close>

definition adjust :: "64 word \<Rightarrow> 64 word" where
  "adjust sz = ((sz + 2 * TYPE_SIZE - 1) div BS + 1) * BS"

definition place :: "addr \<Rightarrow> 64 word \<Rightarrow> 'd mm_state \<Rightarrow> 'd mm_state" where
  "place bp asize s =
    (if GET_SIZE s (HDRP bp) > asize
     then
       let s = PUT (HDRP bp + asize) (PACK (GET_SIZE s (HDRP bp) - asize) FREE) s;
           s = PUT (FTRP s bp) (PACK (GET_SIZE s (HDRP bp) - asize) FREE) s;
           s = PUT (HDRP bp) (PACK asize ALLOC) s;
           s = PUT (FTRP s bp) (PACK asize ALLOC) s
       in s
     else
       let s = PUT (HDRP bp) (PACK asize ALLOC) s;
           s = PUT (FTRP s bp) (PACK asize ALLOC) s
       in s)"

definition extend :: "'d dataseg \<Rightarrow> 64 word \<Rightarrow> 'd mm_state \<Rightarrow> (addr \<times> 'd mm_state) outcome" where
  "extend D asize s =
    (let xsize = max asize CHUNKSIZE;
         (bp, d1) = ds_sbrk D xsize (dseg s);
         (r2, d2) = ds_sbrk D 0 d1;
         s = s\<lparr>dseg := d2, ds_heap_brk := r2\<rparr>
     in if ds_heap_brk s = - 1 then Some (Inl (PANIC ''Cannot extend heap''))
        else
          let s = s\<lparr>heap_end := (ds_heap_brk s - 1) div BS * BS\<rparr>;
              s = PUT (heap_end s) (PACK 0 ALLOC) s;
              s = PUT (HDRP bp) (PACK xsize ALLOC) s;
              s = PUT (FTRP s bp) (PACK xsize ALLOC) s
          in Some (Inr (bp, s)))"

definition mm_malloc :: "'d dataseg \<Rightarrow> 64 word \<Rightarrow> 'd mm_state \<Rightarrow> (addr \<times> 'd mm_state) outcome" where
  "mm_malloc D sz s =
    (if mm_initialized s = 0 then Some (Inl AssertFailed)
     else if sz = 0 then Some (Inr (NULL, s))
     else
       let asize = adjust sz
       in case call_get_free_block asize s of
            None \<Rightarrow> None
          | Some (Inl e) \<Rightarrow> Some (Inl e)
          | Some (Inr (bp, s)) \<Rightarrow>
              if bp \<noteq> NULL then Some (Inr (bp, place bp asize s))
              else extend D asize s)"

text \<open>
  The effect of \<^verbatim>\<open>memset(payload, 0, n)\<close> on the word store, for a payload that is
  eight-byte aligned on a little-endian machine: the first \<open>n div 8\<close> words become
  zero, and of the following word the low \<open>n mod 8\<close> bytes.
\<close>

fun zero_words :: "nat \<Rightarrow> addr \<Rightarrow> (addr \<Rightarrow> heap_word) \<Rightarrow> (addr \<Rightarrow> heap_word)" where
  "zero_words 0 p m = m"
| "zero_words (Suc k) p m = zero_words k (p + 8) (m(p := 0))"

definition zero_fill :: "addr \<Rightarrow> 64 word \<Rightarrow> (addr \<Rightarrow> heap_word) \<Rightarrow> (addr \<Rightarrow> heap_word)" where
  "zero_fill p n m =
    (let m' = zero_words (unat n div 8) p m;
         q = p + 8 * (n div 8)
     in if unat n mod 8 = 0 then m'
        else m'(q := m' q AND NOT (mask (8 * (unat n mod 8)))))"

text \<open>
  \<^verbatim>\<open>memset\<close> writes \<open>n\<close> bytes one after the other, whatever \<open>n\<close> is. The memory the
  process has for the heap is the data segment, from \<open>ds_heap_start\<close> up to
  \<open>ds_heap_brk\<close>: \<open>in_segment s p n\<close> says that the \<open>n\<close> bytes from \<open>p\<close> on lie in
  it. A fill that leaves the segment ends the process with an access violation.
\<close>

definition in_segment :: "'d mm_state \<Rightarrow> addr \<Rightarrow> 64 word \<Rightarrow> bool" where
  "in_segment s p n \<longleftrightarrow>
     n = 0 \<or> ds_heap_start s \<le> p \<and> p \<le> ds_heap_brk s \<and> n \<le> ds_heap_brk s - p"

definition memset_zero :: "addr \<Rightarrow> 64 word \<Rightarrow> 'd mm_state \<Rightarrow> error + 'd mm_state" where
  "memset_zero p n s =
    (if in_segment s p n then Inr (s\<lparr>mem := zero_fill p n (mem s)\<rparr>) else Inl SIGSEGV)"

definition mm_calloc ::
    "'d dataseg \<Rightarrow> 64 word \<Rightarrow> 64 word \<Rightarrow> 'd mm_state \<Rightarrow> (addr \<times> 'd mm_state) outcome" where
  "mm_calloc D nmemb sz s =
    (if mm_initialized s = 0 then Some (Inl AssertFailed)
     else case mm_malloc D (nmemb * sz) s of
            None \<Rightarrow> None
          | Some (Inl e) \<Rightarrow> Some (Inl e)
          | Some (Inr (payload, s)) \<Rightarrow>
              if payload \<noteq> NULL
              then case memset_zero payload (nmemb * sz) s of
                     Inl e \<Rightarrow> Some (Inl e)
                   | Inr s \<Rightarrow> Some (Inr (payload, s))
              else Some (Inr (payload, s)))"

subsection \<open>mm_free\<close>

definition mm_free :: "addr \<Rightarrow> 'd mm_state \<Rightarrow> error + 'd mm_state" where
  "mm_free ptr s =
    (if mm_initialized s = 0 then Inl AssertFailed
     else if GET_STATUS s (HDRP ptr) = 0
     then Inl (PANIC ''You're trying to free already free block.'')
     else
       let sz = GET_SIZE s (HDRP ptr);
           s = PUT (HDRP ptr) (PACK sz FREE) s;
           s = PUT (FTRP s ptr) (PACK sz FREE) s;
           prev_bp = PREV_BLKP s ptr;
           next_bp = NEXT_BLKP s ptr;
           prev_hdr = HDRP_T prev_bp;
           next_hdr = HDRP_T next_bp;
           prev_alloc = GET_STATUS s prev_hdr;
           next_alloc = GET_STATUS s next_hdr
       in if prev_alloc \<noteq> 0 \<and> next_alloc \<noteq> 0 then Inr s
          else if prev_alloc \<noteq> 0 \<and> \<not> next_alloc \<noteq> 0
          then
            let sz = sz + GET_SIZE s next_hdr;
                s = PUT (HDRP ptr) (PACK sz FREE) s;
                s = PUT (FTRP_T s next_bp) (PACK sz FREE) s
            in Inr s
          else if \<not> prev_alloc \<noteq> 0 \<and> next_alloc \<noteq> 0
          then
            let sz = sz + GET_SIZE s prev_hdr;
                s = PUT prev_hdr (PACK sz FREE) s;
                s = PUT (FTRP s ptr) (PACK sz FREE) s
            in Inr s
          else
            let sz = sz + (GET_SIZE s prev_hdr + GET_SIZE s next_hdr);
                s = PUT prev_hdr (PACK sz FREE) s;
                s = PUT (FTRP_T s next_bp) (PACK sz FREE) s
            in Inr s)"

subsection \<open>mm_check\<close>

text \<open>
  The walk of \<^verbatim>\<open>mm_check\<close>, without its printing: it yields the address where the walk
  stopped and the number of blocks whose footer differs from the header.
\<close>

partial_function (option) check_loop :: "'d mm_state \<Rightarrow> addr \<Rightarrow> int \<Rightarrow> (addr \<times> int) option" where
  "check_loop s p errors =
    (if p < heap_end s
     then
       let hdr = GET s p;
           sz = SIZE hdr;
           status = STATUS hdr;
           fp = p + sz - TYPE_SIZE;
           ftr = GET s fp;
           fsize = SIZE ftr;
           fstatus = STATUS ftr;
           errors = (if sz \<noteq> fsize \<or> status \<noteq> fstatus then errors + 1 else errors);
           p = p + sz
       in if sz = 0 then Some (p, errors) else check_loop s p errors
     else Some (p, errors))"

declare check_loop.simps [code]

text \<open>
  \<^verbatim>\<open>mm_check\<close> returns nothing; the model returns what it prints last: where the walk
  stopped, the error count, and whether "Block structure coherent." is printed.
\<close>

definition mm_check :: "'d mm_state \<Rightarrow> (addr \<times> int \<times> bool) outcome" where
  "mm_check s =
    (if mm_initialized s = 0 then Some (Inl AssertFailed)
     else case check_loop s (heap_start s) 0 of
            None \<Rightarrow> None
          | Some (p, errors) \<Rightarrow> Some (Inr (p, errors, p = heap_end s \<and> errors = 0)))"

subsection \<open>Two data segment providers and the program's start state\<close>

text \<open>
  Modelled from the spec: the Region Provider (module dataseg, absent from the
  sources). Its state is the pair of the region's start and current end; the page
  size is 4096. \<open>ds_spec\<close> follows the spec's words, where growing returns the new
  end of the region. \<open>ds_unix\<close> differs in one point: growing returns the end the
  region had before the call, as \<^verbatim>\<open>sbrk(2)\<close> does. With an increment of 0 both
  return the current end, which is how the manager asks for it.
\<close>

definition ds_spec :: "(addr \<times> addr) dataseg" where
  "ds_spec =
    \<lparr>ds_heap_stat = (\<lambda>d. d),
     ds_getpagesize = (\<lambda>d. 4096),
     ds_sbrk = (\<lambda>inc d. (snd d + inc, (fst d, snd d + inc)))\<rparr>"

definition ds_unix :: "(addr \<times> addr) dataseg" where
  "ds_unix =
    \<lparr>ds_heap_stat = (\<lambda>d. d),
     ds_getpagesize = (\<lambda>d. 4096),
     ds_sbrk = (\<lambda>inc d. (snd d, (fst d, snd d + inc)))\<rparr>"

text \<open>
  The state of a process that has set up an empty data segment at address \<open>a\<close> and
  has not called the manager yet: the globals hold their initialisers, the store
  holds \<open>m\<close>.
\<close>

definition boot :: "addr \<Rightarrow> (addr \<Rightarrow> heap_word) \<Rightarrow> (addr \<times> addr) mm_state" where
  "boot a m =
    \<lparr>ds_heap_start = NULL, ds_heap_brk = NULL, heap_start = NULL, heap_end = NULL,
     PAGESIZE = 0, get_free_block = None, mm_initialized = 0, nf_ptr = NULL,
     mem = m, dseg = (a, a)\<rparr>"

subsection \<open>The block sequence\<close>

text \<open>
  Blocks are not linked: the block after the one whose header is at \<open>p\<close> starts at
  \<open>p\<close> plus the size in that header. \<open>visited s p\<close>: a forward walk from
  \<open>heap_start\<close>, as every locator and \<^verbatim>\<open>mm_check\<close> make it, meets a header at \<open>p\<close>.
  \<open>tiles s p\<close>: the blocks from \<open>p\<close> on end exactly at \<open>heap_end\<close>.
\<close>

inductive visited :: "'d mm_state \<Rightarrow> addr \<Rightarrow> bool" for s :: "'d mm_state" where
  first: "heap_start s < heap_end s \<Longrightarrow> visited s (heap_start s)"
| after: "visited s p \<Longrightarrow> p + GET_SIZE s p < heap_end s \<Longrightarrow> visited s (p + GET_SIZE s p)"

inductive tiles :: "'d mm_state \<Rightarrow> addr \<Rightarrow> bool" for s :: "'d mm_state" where
  at_end: "p = heap_end s \<Longrightarrow> tiles s p"
| block: "p < heap_end s \<Longrightarrow> tiles s (p + GET_SIZE s p) \<Longrightarrow> tiles s p"

text \<open>
  \<open>skips s sz p q\<close>: a scan for \<open>sz\<close> bytes that stands at \<open>p\<close> moves on to \<open>q\<close>,
  passing only over blocks below \<open>heap_end\<close> that are too small or allocated.
\<close>

inductive skips :: "'d mm_state \<Rightarrow> 64 word \<Rightarrow> addr \<Rightarrow> addr \<Rightarrow> bool"
  for s :: "'d mm_state" and sz :: "64 word" where
  stay: "skips s sz p p"
| pass: "p < heap_end s \<Longrightarrow> sz > GET_SIZE s p \<or> GET_STATUS s p = ALLOC \<Longrightarrow>
         skips s sz (p + GET_SIZE s p) q \<Longrightarrow> skips s sz p q"

text \<open>Where the next-fit scan starts: at the cursor, or at \<open>heap_start\<close> when it is \<^verbatim>\<open>NULL\<close>.\<close>

definition nf_start :: "'d mm_state \<Rightarrow> addr" where
  "nf_start s = (if nf_ptr s = NULL then heap_start s else nf_ptr s)"

subsection \<open>Sequences of calls\<close>

text \<open>
  A driver calls the manager's functions one after the other; a call that does not
  return, or that terminates the process, ends the sequence.
\<close>

definition and_then :: "'a outcome \<Rightarrow> ('a \<Rightarrow> 'b outcome) \<Rightarrow> 'b outcome" where
  "and_then r f = (case r of None \<Rightarrow> None | Some (Inl e) \<Rightarrow> Some (Inl e) | Some (Inr v) \<Rightarrow> f v)"

definition returned :: "'a outcome \<Rightarrow> 'a" where
  "returned r = projr (the r)"

text \<open>
  \<open>no_reuse D h s u\<close>: from \<open>s\<close>, a sequence of calls that returned leads to \<open>u\<close>, and
  no allocation among them reused the word at address \<open>h\<close> as a tag of its own: \<open>h\<close>
  is neither the header nor the footer of a block it returned, nor the place of the end
  sentinel it set (for \<^verbatim>\<open>mm_calloc\<close>: by the \<^verbatim>\<open>mm_malloc\<close> that it calls).
\<close>

inductive no_reuse :: "'d dataseg \<Rightarrow> addr \<Rightarrow> 'd mm_state \<Rightarrow> 'd mm_state \<Rightarrow> bool"
  for D :: "'d dataseg" and h :: addr where
  none: "no_reuse D h s s"
| release: "no_reuse D h s t \<Longrightarrow> mm_free q t = Inr u \<Longrightarrow> no_reuse D h s u"
| allocate: "no_reuse D h s t \<Longrightarrow> mm_malloc D n t = Some (Inr (bp, u)) \<Longrightarrow>
     h \<noteq> HDRP bp \<Longrightarrow> h \<noteq> FTRP u bp \<Longrightarrow> h \<noteq> heap_end u \<Longrightarrow> no_reuse D h s u"
| allocate_zeroed: "no_reuse D h s t \<Longrightarrow> mm_calloc D nmemb sz t = Some (Inr (bp, u)) \<Longrightarrow>
     mm_malloc D (nmemb * sz) t = Some (Inr (bp, v)) \<Longrightarrow>
     h \<noteq> HDRP bp \<Longrightarrow> h \<noteq> FTRP v bp \<Longrightarrow> h \<noteq> heap_end v \<Longrightarrow> no_reuse D h s u"

definition blank :: "addr \<Rightarrow> heap_word" where
  "blank = (\<lambda>a. 0)"

text \<open>\<^verbatim>\<open>mm_init(ap)\<close> in a process whose empty data segment lies at address 0x1000.\<close>

definition fresh :: "(addr \<times> addr) dataseg \<Rightarrow> AllocationPolicy \<Rightarrow> (addr \<times> addr) mm_state outcome" where
  "fresh D ap = Some (mm_init D ap (boot 0x1000 blank))"

text \<open>
  \<^verbatim>\<open>mm_init(ap_FirstFit)\<close>, then three times \<^verbatim>\<open>mm_calloc(1, 40)\<close>: the pointer of the
  third block and the state.
\<close>

definition three_blocks :: "(addr \<times> (addr \<times> addr) mm_state) outcome" where
  "three_blocks =
    and_then (fresh ds_unix ap_FirstFit) (\<lambda>s.
    and_then (mm_calloc ds_unix 1 40 s) (\<lambda>(a, s).
    and_then (mm_calloc ds_unix 1 40 s) (\<lambda>(b, s).
    mm_calloc ds_unix 1 40 s)))"

text \<open>
  \<^verbatim>\<open>mm_init(ap_NextFit)\<close>, three times \<^verbatim>\<open>mm_malloc(40)\<close>, then \<^verbatim>\<open>mm_malloc(3824)\<close>,
  which takes the rest of the heap, then \<^verbatim>\<open>mm_free\<close> of the third block: the
  cursor stands at the last block, and the only free block lies before it.
\<close>

definition nf_heap :: "(addr \<times> addr) mm_state outcome" where
  "nf_heap =
    and_then (fresh ds_unix ap_NextFit) (\<lambda>s.
    and_then (mm_malloc ds_unix 40 s) (\<lambda>(a, s).
    and_then (mm_malloc ds_unix 40 s) (\<lambda>(b, s).
    and_then (mm_malloc ds_unix 40 s) (\<lambda>(c, s).
    and_then (mm_malloc ds_unix 3824 s) (\<lambda>(e, s).
    Some (mm_free c s))))))"

text \<open>
  \<^verbatim>\<open>mm_init(ap)\<close>, then \<^verbatim>\<open>mm_malloc(5000)\<close>: more than the 4032 bytes of the initial free
  block, so that the heap is extended. The pointer returned and the state.
\<close>

definition grown ::
    "(addr \<times> addr) dataseg \<Rightarrow> AllocationPolicy \<Rightarrow> (addr \<times> (addr \<times> addr) mm_state) outcome" where
  "grown D ap = and_then (fresh D ap) (mm_malloc D 5000)"

text \<open>The three blocks of \<open>three_blocks\<close>, then \<^verbatim>\<open>mm_free\<close> of the third.\<close>

definition third_released :: "(addr \<times> addr) mm_state outcome" where
  "third_released = and_then three_blocks (\<lambda>(c, s). Some (mm_free c s))"

text \<open>
  After that, \<^verbatim>\<open>mm_malloc(100)\<close>, which is served from the remainder, and \<^verbatim>\<open>mm_free\<close> of
  the block it returned.
\<close>

definition third_released_later :: "(addr \<times> addr) mm_state outcome" where
  "third_released_later =
    and_then third_released (\<lambda>s.
    and_then (mm_malloc ds_unix 100 s) (\<lambda>(d, s).
    Some (mm_free d s)))"

section \<open>Boundary tags\<close>

text \<open>
  A tag keeps the status in its three low bits and the size in the others; sizes are
  multiples of eight, so that packing and unpacking do not disturb each other.
\<close>

lemma seven_mask: "(7::64 word) = mask 3"
  by (simp add: mask_eq_exp_minus_1)

lemma STATUS_eq_take_bit: "STATUS v = take_bit 3 v"
  by (simp add: STATUS_def STATUS_MASK_def take_bit_eq_mask seven_mask)

lemma STATUS_zero_iff_dvd: "STATUS a = 0 \<longleftrightarrow> 8 dvd a"
  by (simp add: STATUS_eq_take_bit take_bit_eq_0_iff)

lemma STATUS_zero_bits:
  assumes "STATUS a = 0" "n < 3"
  shows "\<not> bit a n"
proof
  assume "bit a n"
  with assms(2) have "bit (take_bit 3 a) n"
    by (simp add: bit_take_bit_iff)
  with assms(1) show False
    by (simp add: STATUS_eq_take_bit)
qed

lemma STATUS_SIZE [simp]: "STATUS (SIZE v) = 0"
  unfolding STATUS_def SIZE_def SIZE_MASK_def STATUS_MASK_def seven_mask
  by (rule bit_word_eqI) (auto simp: bit_simps)

lemma STATUS_add [simp]: "STATUS a = 0 \<Longrightarrow> STATUS b = 0 \<Longrightarrow> STATUS (a + b) = 0"
  by (simp add: STATUS_zero_iff_dvd)

lemma STATUS_PACK_FREE [simp]: "STATUS (PACK a FREE) = STATUS a"
  by (simp add: PACK_def FREE_def)

lemma SIZE_PACK_ALLOC [simp]: "STATUS a = 0 \<Longrightarrow> SIZE (PACK a ALLOC) = a"
  unfolding SIZE_def SIZE_MASK_def STATUS_MASK_def seven_mask PACK_def ALLOC_def
  apply (rule bit_word_eqI)
  apply (auto simp: bit_simps dest: STATUS_zero_bits)
  done

lemma SIZE_PACK_FREE [simp]: "STATUS a = 0 \<Longrightarrow> SIZE (PACK a FREE) = a"
  unfolding SIZE_def SIZE_MASK_def STATUS_MASK_def seven_mask PACK_def FREE_def
  apply (rule bit_word_eqI)
  apply (auto simp: bit_simps dest: STATUS_zero_bits)
  done

lemma STATUS_PACK_ALLOC [simp]:
  assumes "STATUS a = 0"
  shows "STATUS (PACK a ALLOC) = ALLOC"
proof -
  have "(a OR 1) AND mask 3 = 1"
    by (rule bit_word_eqI) (auto simp: bit_simps dest: STATUS_zero_bits [OF assms])
  then show ?thesis
    by (simp add: STATUS_def STATUS_MASK_def seven_mask PACK_def ALLOC_def)
qed

lemma STATUS_mult_BS [simp]: "STATUS (k * BS) = 0"
proof -
  have "(8::64 word) dvd 32" by (rule dvdI [of _ _ 4]) simp
  then show ?thesis
    unfolding STATUS_zero_iff_dvd BS_def by (rule dvd_mult)
qed

lemma STATUS_GET_SIZE [simp]: "STATUS (GET_SIZE s p) = 0"
  by (simp add: GET_SIZE_def)

lemma GET_STATUS_PUT_same: "STATUS v = 0 \<Longrightarrow> GET_STATUS (PUT h v s) h = 0"
  by (simp add: GET_STATUS_def GET_def PUT_def)

lemma GET_STATUS_PUT_keeps:
  "GET_STATUS s h = 0 \<Longrightarrow> STATUS v = 0 \<Longrightarrow> GET_STATUS (PUT p v s) h = 0"
  by (simp add: GET_STATUS_def GET_def PUT_def)

lemma mm_initialized_PUT [simp]: "mm_initialized (PUT p v s) = mm_initialized s"
  by (simp add: PUT_def)

section \<open>Release\<close>

lemma mm_free_leaves_FREE:
  assumes "mm_free ptr s = Inr s'"
  shows "GET_STATUS s' (HDRP ptr) = 0"
  using assms unfolding mm_free_def Let_def
  by (auto split: if_splits simp: GET_STATUS_PUT_same GET_STATUS_PUT_keeps)

lemma mm_free_initialized: "mm_free ptr s = Inr s' \<Longrightarrow> mm_initialized s' = mm_initialized s"
  unfolding mm_free_def Let_def
  by (auto split: if_splits)

lemma mm_free_keeps_FREE:
  assumes "mm_free q s = Inr s'" "GET_STATUS s h = 0"
  shows "GET_STATUS s' h = 0"
  using assms unfolding mm_free_def Let_def
  by (auto split: if_splits simp: GET_STATUS_PUT_keeps)

lemma mm_free_of_FREE:
  "mm_initialized s \<noteq> 0 \<Longrightarrow> GET_STATUS s (HDRP ptr) = FREE \<Longrightarrow>
     mm_free ptr s = Inl (PANIC ''You're trying to free already free block.'')"
  by (simp add: mm_free_def FREE_def)

lemma mm_free_Inr_initialized: "mm_free ptr s = Inr s' \<Longrightarrow> mm_initialized s \<noteq> 0"
  by (auto simp: mm_free_def split: if_splits)

section \<open>Allocation\<close>

text \<open>
  C7. \<^verbatim>\<open>mm_malloc(0)\<close> returns \<^verbatim>\<open>NULL\<close> and leaves the whole state as it was (tags, heap
  bounds, next-fit cursor); it is a normal return, not an error.
\<close>

theorem mm_malloc_zero:
  "mm_initialized s \<noteq> 0 \<Longrightarrow> mm_malloc D 0 s = Some (Inr (NULL, s))"
  by (simp add: mm_malloc_def)

theorem mm_malloc_zero_witness:
  "mm_initialized (snd (returned three_blocks)) \<noteq> 0 \<and>
   mm_malloc ds_unix 0 (snd (returned three_blocks)) = Some (Inr (NULL, snd (returned three_blocks)))"
proof -
  have i: "mm_initialized (snd (returned three_blocks)) \<noteq> 0"
    by code_simp
  from mm_malloc_zero [OF i] i show ?thesis
    by simp
qed

section \<open>Initialisation\<close>

lemma unat_round_down: "unat (x div BS * BS) = unat x div 32 * 32"
proof -
  have "unat (x div 32) * unat (32 :: 64 word) < 2 ^ LENGTH(64)"
  proof -
    have "unat (x div 32) * 32 \<le> unat x" by (simp add: unat_div)
    also have "unat x < 2 ^ LENGTH(64)" by (rule unsigned_less)
    finally show ?thesis by simp
  qed
  then have "unat (x div 32 * 32) = unat (x div 32) * unat (32 :: 64 word)"
    by (simp only: unat_mult_lem)
  then show ?thesis by (simp add: BS_def unat_div)
qed

lemma unat_plus_BS: "unat x + 32 < 2 ^ 64 \<Longrightarrow> unat (x + BS) = unat x + 32"
proof -
  assume "unat x + 32 < 2 ^ 64"
  then have "unat x + unat (32 :: 64 word) < 2 ^ LENGTH(64)" by simp
  then have "unat (x + 32) = unat x + unat (32 :: 64 word)" by (simp only: unat_add_lem)
  then show ?thesis by (simp add: BS_def)
qed

lemma above_multiple:
  fixes a :: nat
  shows "32 dvd (a + 32) div 32 * 32 \<and> a < (a + 32) div 32 * 32 \<and> (a + 32) div 32 * 32 \<le> a + 32"
proof -
  have "(a + 32) div 32 * 32 + (a + 32) mod 32 = a + 32"
    by (rule div_mult_mod_eq)
  moreover have "(a + 32) mod 32 < 32"
    by simp
  ultimately show ?thesis
    by (intro conjI) (simp, linarith, linarith)
qed

lemma below_multiple:
  fixes b :: nat
  assumes "0 < b"
  shows "32 dvd (b - 1) div 32 * 32 \<and> (b - 1) div 32 * 32 < b \<and> b \<le> (b - 1) div 32 * 32 + 32"
proof -
  have "(b - 1) div 32 * 32 + (b - 1) mod 32 = b - 1"
    by (rule div_mult_mod_eq)
  moreover have "(b - 1) mod 32 < 32"
    by simp
  ultimately show ?thesis
    using assms by (intro conjI) (simp, linarith, linarith)
qed

lemma next_multiple:
  fixes a h :: nat
  assumes "32 dvd a" "32 dvd h" "a < h" "h \<le> a + 32"
  shows "h = a + 32"
proof -
  from assms(1) obtain i where i: "a = 32 * i" by (rule dvdE)
  from assms(2) obtain j where j: "h = 32 * j" by (rule dvdE)
  from assms(3,4) have "i < j" "j \<le> i + 1"
    unfolding i j by simp_all
  then have "j = i + 1" by simp
  then show ?thesis
    unfolding i j by simp
qed

lemma mm_init_fields:
  assumes "mm_init D ap s = Inr s'"
  shows "ds_heap_start s' = fst (ds_heap_stat D (dseg s))"
    and "ds_heap_brk s' = fst (ds_sbrk D 0 (snd (ds_sbrk D CHUNKSIZE (dseg s))))"
    and "heap_start s' = (ds_heap_start s' + BS) div BS * BS"
    and "heap_end s' = (ds_heap_brk s' - 1) div BS * BS"
  using assms unfolding mm_init_def Let_def PUT_def
  by (auto split: if_splits prod.splits)

text \<open>
  C9, as the code has it. \<^verbatim>\<open>mm_init\<close> takes the bounds of the data segment from the
  provider and sets \<open>heap_start\<close> to \<open>(ds_heap_start + 32) div 32 * 32\<close> and \<open>heap_end\<close>
  to \<open>(ds_heap_brk - 1) div 32 * 32\<close>, in 64-bit arithmetic. When the segment does not
  start in the last 32 bytes of the address space, \<open>heap_start\<close> is the least multiple
  of 32 strictly above its start: for a start that is a multiple of 32 it is the start
  plus 32, not the start. When the segment's end is not 0, \<open>heap_end\<close> is the greatest
  multiple of 32 strictly below it: for an end that is a multiple of 32 it is the end
  minus 32.
\<close>

theorem mm_init_heap_bounds:
  assumes "mm_init D ap s = Inr s'"
  shows "ds_heap_start s' = fst (ds_heap_stat D (dseg s)) \<and>
         ds_heap_brk s' = fst (ds_sbrk D 0 (snd (ds_sbrk D CHUNKSIZE (dseg s)))) \<and>
         heap_start s' = (ds_heap_start s' + BS) div BS * BS \<and>
         heap_end s' = (ds_heap_brk s' - 1) div BS * BS \<and>
         (unat (ds_heap_start s') + 32 < 2 ^ 64 \<longrightarrow>
            32 dvd unat (heap_start s') \<and>
            unat (ds_heap_start s') < unat (heap_start s') \<and>
            unat (heap_start s') \<le> unat (ds_heap_start s') + 32 \<and>
            (32 dvd unat (ds_heap_start s') \<longrightarrow>
               unat (heap_start s') = unat (ds_heap_start s') + 32)) \<and>
         (ds_heap_brk s' \<noteq> 0 \<longrightarrow>
            32 dvd unat (heap_end s') \<and>
            unat (heap_end s') < unat (ds_heap_brk s') \<and>
            unat (ds_heap_brk s') \<le> unat (heap_end s') + 32 \<and>
            (32 dvd unat (ds_heap_brk s') \<longrightarrow>
               unat (heap_end s') + 32 = unat (ds_heap_brk s')))"
proof -
  note f = mm_init_fields [OF assms]
  have lo: "32 dvd unat (heap_start s') \<and> unat (ds_heap_start s') < unat (heap_start s') \<and>
            unat (heap_start s') \<le> unat (ds_heap_start s') + 32"
    if "unat (ds_heap_start s') + 32 < 2 ^ 64"
  proof -
    have "unat (heap_start s') = (unat (ds_heap_start s') + 32) div 32 * 32"
      by (simp add: f(3) unat_round_down unat_plus_BS [OF that])
    then show ?thesis by (simp only: above_multiple)
  qed
  have hi: "32 dvd unat (heap_end s') \<and> unat (heap_end s') < unat (ds_heap_brk s') \<and>
            unat (ds_heap_brk s') \<le> unat (heap_end s') + 32"
    if "ds_heap_brk s' \<noteq> 0"
  proof -
    from that have pos: "0 < unat (ds_heap_brk s')"
      by (simp add: unat_gt_0)
    have "unat (heap_end s') = (unat (ds_heap_brk s') - 1) div 32 * 32"
      using that by (simp add: f(4) unat_round_down unat_minus_one)
    with below_multiple [OF pos] show ?thesis by (simp only:)
  qed
  have lo': "unat (heap_start s') = unat (ds_heap_start s') + 32"
    if "unat (ds_heap_start s') + 32 < 2 ^ 64" "32 dvd unat (ds_heap_start s')"
    using that(2) lo [OF that(1)] by (intro next_multiple) simp_all
  have hi': "unat (heap_end s') + 32 = unat (ds_heap_brk s')"
    if "ds_heap_brk s' \<noteq> 0" "32 dvd unat (ds_heap_brk s')"
  proof -
    from hi [OF that(1)] have "32 dvd unat (heap_end s')"
      "unat (heap_end s') < unat (ds_heap_brk s')"
      "unat (ds_heap_brk s') \<le> unat (heap_end s') + 32"
      by simp_all
    with that(2) have "unat (ds_heap_brk s') = unat (heap_end s') + 32"
      by (intro next_multiple)
    then show ?thesis by simp
  qed
  show ?thesis
  proof (intro conjI)
    show "unat (ds_heap_start s') + 32 < 2 ^ 64 \<longrightarrow>
            32 dvd unat (heap_start s') \<and>
            unat (ds_heap_start s') < unat (heap_start s') \<and>
            unat (heap_start s') \<le> unat (ds_heap_start s') + 32 \<and>
            (32 dvd unat (ds_heap_start s') \<longrightarrow>
               unat (heap_start s') = unat (ds_heap_start s') + 32)"
      using lo lo' by blast
    show "ds_heap_brk s' \<noteq> 0 \<longrightarrow>
            32 dvd unat (heap_end s') \<and>
            unat (heap_end s') < unat (ds_heap_brk s') \<and>
            unat (ds_heap_brk s') \<le> unat (heap_end s') + 32 \<and>
            (32 dvd unat (ds_heap_brk s') \<longrightarrow>
               unat (heap_end s') + 32 = unat (ds_heap_brk s'))"
      using hi hi' by blast
  qed (rule f)+
qed

theorem mm_init_heap_bounds_witness:
  "mm_init ds_unix ap_FirstFit (boot 0x1000 blank) =
     Inr (projr (mm_init ds_unix ap_FirstFit (boot 0x1000 blank))) \<and>
   unat (ds_heap_start (projr (mm_init ds_unix ap_FirstFit (boot 0x1000 blank)))) + 32 < 2 ^ 64 \<and>
   ds_heap_brk (projr (mm_init ds_unix ap_FirstFit (boot 0x1000 blank))) \<noteq> 0 \<and>
   32 dvd unat (ds_heap_start (projr (mm_init ds_unix ap_FirstFit (boot 0x1000 blank)))) \<and>
   32 dvd unat (ds_heap_brk (projr (mm_init ds_unix ap_FirstFit (boot 0x1000 blank)))) \<and>
   32 dvd unat (heap_start (projr (mm_init ds_unix ap_FirstFit (boot 0x1000 blank)))) \<and>
   unat (ds_heap_start (projr (mm_init ds_unix ap_FirstFit (boot 0x1000 blank))))
     < unat (heap_start (projr (mm_init ds_unix ap_FirstFit (boot 0x1000 blank)))) \<and>
   unat (heap_start (projr (mm_init ds_unix ap_FirstFit (boot 0x1000 blank))))
     \<le> unat (ds_heap_start (projr (mm_init ds_unix ap_FirstFit (boot 0x1000 blank)))) + 32 \<and>
   unat (heap_start (projr (mm_init ds_unix ap_FirstFit (boot 0x1000 blank))))
     = unat (ds_heap_start (projr (mm_init ds_unix ap_FirstFit (boot 0x1000 blank)))) + 32 \<and>
   32 dvd unat (heap_end (projr (mm_init ds_unix ap_FirstFit (boot 0x1000 blank)))) \<and>
   unat (heap_end (projr (mm_init ds_unix ap_FirstFit (boot 0x1000 blank))))
     < unat (ds_heap_brk (projr (mm_init ds_unix ap_FirstFit (boot 0x1000 blank)))) \<and>
   unat (ds_heap_brk (projr (mm_init ds_unix ap_FirstFit (boot 0x1000 blank))))
     \<le> unat (heap_end (projr (mm_init ds_unix ap_FirstFit (boot 0x1000 blank)))) + 32 \<and>
   unat (heap_end (projr (mm_init ds_unix ap_FirstFit (boot 0x1000 blank)))) + 32
     = unat (ds_heap_brk (projr (mm_init ds_unix ap_FirstFit (boot 0x1000 blank))))"
proof -
  let ?s' = "projr (mm_init ds_unix ap_FirstFit (boot 0x1000 blank))"
  have r: "mm_init ds_unix ap_FirstFit (boot 0x1000 blank) = Inr ?s'"
    by code_simp
  have s: "ds_heap_start ?s' = 0x1000"
    by code_simp
  then have a: "unat (ds_heap_start ?s') + 32 < 2 ^ 64"
    by simp
  from s have a': "32 dvd unat (ds_heap_start ?s')"
    by simp
  have e: "ds_heap_brk ?s' = 0x2000"
    by code_simp
  then have b: "ds_heap_brk ?s' \<noteq> 0"
    by simp
  from e have b': "32 dvd unat (ds_heap_brk ?s')"
    by simp
  from mm_init_heap_bounds [OF r] a a' b b' r show ?thesis
    by blast
qed

text \<open>
  C9, as stated, fails: for the aligned segment from 0x1000 to 0x2000 the heap does
  not start at 0x1000, nor end at 0x2000.
\<close>

theorem mm_init_aligned_counterexample:
  "fresh ds_unix ap_FirstFit = Some (Inr (returned (fresh ds_unix ap_FirstFit))) \<and>
   ds_heap_start (returned (fresh ds_unix ap_FirstFit)) = 0x1000 \<and>
   (0x1000 :: addr) mod 32 = 0 \<and>
   heap_start (returned (fresh ds_unix ap_FirstFit)) = 0x1020 \<and>
   ds_heap_brk (returned (fresh ds_unix ap_FirstFit)) = 0x2000 \<and>
   (0x2000 :: addr) mod 32 = 0 \<and>
   heap_end (returned (fresh ds_unix ap_FirstFit)) = 0x1FE0"
  by code_simp

section \<open>The size of an allocated block\<close>

lemma unat_adjust:
  assumes "unat n \<le> 2 ^ 64 - 48"
  shows "unat (adjust n) = (unat n + 16 + 31) div 32 * 32"
proof -
  have a: "unat (n + 15) = unat n + 15"
  proof -
    from assms have "unat n + unat (15 :: 64 word) < 2 ^ LENGTH(64)" by simp
    then have "unat (n + 15) = unat n + unat (15 :: 64 word)" by (simp only: unat_add_lem)
    then show ?thesis by simp
  qed
  let ?q = "(n + 15) div 32"
  have q: "unat ?q = (unat n + 15) div 32"
    by (simp add: unat_div a)
  have q1: "unat (?q + 1) = (unat n + 15) div 32 + 1"
  proof -
    from assms have "unat ?q + unat (1 :: 64 word) < 2 ^ LENGTH(64)" by (simp add: q)
    then have "unat (?q + 1) = unat ?q + unat (1 :: 64 word)" by (simp only: unat_add_lem)
    then show ?thesis by (simp add: q)
  qed
  have "unat ((?q + 1) * 32) = ((unat n + 15) div 32 + 1) * 32"
  proof -
    have "(unat n + 15) div 32 * 32 \<le> unat n + 15" by simp
    with assms have "unat (?q + 1) * unat (32 :: 64 word) < 2 ^ LENGTH(64)" by (simp add: q1)
    then have "unat ((?q + 1) * 32) = unat (?q + 1) * unat (32 :: 64 word)" by (simp only: unat_mult_lem)
    then show ?thesis by (simp add: q1)
  qed
  moreover have "adjust n = (?q + 1) * 32"
    by (simp add: adjust_def TYPE_SIZE_def BS_def add.commute)
  moreover have "(unat n + 16 + 31) div 32 = (unat n + 15) div 32 + 1"
    by simp
  ultimately show ?thesis by simp
qed

lemma place_header: "GET (place bp asize s) (HDRP bp) = PACK asize ALLOC"
  by (simp add: place_def Let_def GET_def PUT_def)

lemma place_footer:
  "STATUS asize = 0 \<Longrightarrow> GET (place bp asize s) (FTRP (place bp asize s) bp) = PACK asize ALLOC"
  by (simp add: FTRP_def GET_SIZE_def place_header) (simp add: place_def Let_def GET_def PUT_def FTRP_def GET_SIZE_def)


lemma STATUS_adjust [simp]: "STATUS (adjust n) = 0"
  by (simp add: adjust_def)

lemma STATUS_CHUNKSIZE [simp]: "STATUS CHUNKSIZE = 0"
  by (simp add: CHUNKSIZE_def STATUS_def STATUS_MASK_def)

lemma STATUS_max [simp]: "STATUS a = 0 \<Longrightarrow> STATUS b = 0 \<Longrightarrow> STATUS (max a b) = 0"
  by (simp add: max_def)

lemma extend_result:
  assumes "extend D asize s = Some (Inr (bp, s'))" "STATUS asize = 0"
  shows "GET s' (HDRP bp) = PACK (max asize CHUNKSIZE) ALLOC"
    and "GET s' (FTRP s' bp) = PACK (max asize CHUNKSIZE) ALLOC"
proof -
  from assms(1) show h: "GET s' (HDRP bp) = PACK (max asize CHUNKSIZE) ALLOC"
    unfolding extend_def Let_def
    by (auto split: prod.splits if_splits simp: GET_def PUT_def)
  from assms(1) show "GET s' (FTRP s' bp) = PACK (max asize CHUNKSIZE) ALLOC"
    unfolding FTRP_def GET_SIZE_def h
    unfolding extend_def Let_def
    by (auto split: prod.splits if_splits simp: GET_def PUT_def FTRP_def GET_SIZE_def)
qed

lemma unat_max: "unat (max a b) = max (unat a) (unat b)"
  by (simp add: max_def word_le_nat_alt)

lemma mm_malloc_tags:
  assumes "mm_malloc D n s = Some (Inr (bp, s'))"
    and "n \<noteq> 0"
    and "unat n \<le> 2 ^ 64 - 48"
  shows "(\<exists>p t. call_get_free_block (adjust n) s = Some (Inr (p, t)) \<and>
            unat (GET_SIZE s' (HDRP bp)) =
              (if p \<noteq> NULL then (unat n + 16 + 31) div 32 * 32
               else max ((unat n + 16 + 31) div 32 * 32) 4096)) \<and>
         32 dvd unat (GET_SIZE s' (HDRP bp)) \<and>
         unat n + 16 \<le> unat (GET_SIZE s' (HDRP bp)) \<and>
         GET_STATUS s' (HDRP bp) = ALLOC \<and>
         GET s' (FTRP s' bp) = GET s' (HDRP bp)"
proof -
  let ?A = "(unat n + 16 + 31) div 32 * 32"
  have A: "unat (adjust n) = ?A"
    using assms(3) by (rule unat_adjust)
  have A32: "32 dvd ?A" by simp
  have Age: "unat n + 16 \<le> ?A"
  proof -
    have "?A + (unat n + 16 + 31) mod 32 = unat n + 16 + 31" by (rule div_mult_mod_eq)
    moreover have "(unat n + 16 + 31) mod 32 < 32" by simp
    ultimately show ?thesis by linarith
  qed
  from assms(1,2) obtain p t where
    c: "call_get_free_block (adjust n) s = Some (Inr (p, t))" and
    r: "if p \<noteq> NULL then bp = p \<and> s' = place p (adjust n) t
        else extend D (adjust n) t = Some (Inr (bp, s'))"
    unfolding mm_malloc_def Let_def
    by (auto split: if_splits option.splits sum.splits prod.splits)
  show ?thesis
  proof (cases "p \<noteq> NULL")
    case True
    with r have bp: "bp = p" and s': "s' = place p (adjust n) t" by simp_all
    have h: "GET s' (HDRP bp) = PACK (adjust n) ALLOC"
      by (simp add: bp s' place_header)
    have f: "GET s' (FTRP s' bp) = PACK (adjust n) ALLOC"
      by (simp add: bp s' place_footer)
    have sz: "unat (GET_SIZE s' (HDRP bp)) = ?A"
      by (simp add: GET_SIZE_def h A)
    have st: "GET_STATUS s' (HDRP bp) = ALLOC"
      by (simp add: GET_STATUS_def h)
    from c True sz st h f A32 Age show ?thesis
      by (intro conjI exI [of _ p] exI [of _ t]) simp_all
  next
    case False
    with r have e: "extend D (adjust n) t = Some (Inr (bp, s'))" by simp
    note hf = extend_result [OF e STATUS_adjust]
    have "GET_SIZE s' (HDRP bp) = max (adjust n) CHUNKSIZE"
      by (simp add: GET_SIZE_def hf(1))
    moreover have "unat CHUNKSIZE = 4096"
      by (simp add: CHUNKSIZE_def)
    ultimately have sz: "unat (GET_SIZE s' (HDRP bp)) = max ?A 4096"
      by (simp add: unat_max A)
    have st: "GET_STATUS s' (HDRP bp) = ALLOC"
      by (simp add: GET_STATUS_def hf(1))
    have d: "32 dvd max ?A 4096"
      by (simp add: max_def)
    have g: "unat n + 16 \<le> max ?A 4096"
      using Age by simp
    from c False sz st hf d g show ?thesis
      by (intro conjI exI [of _ p] exI [of _ t]) simp_all
  qed
qed

text \<open>
  C5, as the code has it. For a request of \<open>n\<close> bytes, \<open>0 < n \<le> 2^64 - 48\<close>, that
  returns, the header of the returned block is an ALLOCATED tag, the footer equals it,
  and the size in it is a multiple of 32 and at least \<open>n + 16\<close>: it is
  \<open>ceil ((n + 16) / 32) * 32\<close> when the locator found a free block, and the larger of
  that and the chunk size 4096 when the heap was extended.
\<close>

theorem mm_malloc_block_size:
  assumes "mm_malloc D n s = Some (Inr (bp, s'))"
    and "n \<noteq> 0"
    and "unat n \<le> 2 ^ 64 - 48"
  shows "(\<exists>p t. call_get_free_block (adjust n) s = Some (Inr (p, t)) \<and>
            unat (GET_SIZE s' (HDRP bp)) =
              (if p \<noteq> NULL then (unat n + 16 + 31) div 32 * 32
               else max ((unat n + 16 + 31) div 32 * 32) 4096)) \<and>
         32 dvd unat (GET_SIZE s' (HDRP bp)) \<and>
         unat n + 16 \<le> unat (GET_SIZE s' (HDRP bp)) \<and>
         GET_STATUS s' (HDRP bp) = ALLOC \<and>
         GET s' (FTRP s' bp) = GET s' (HDRP bp)"
  using assms by (rule mm_malloc_tags)

theorem mm_malloc_block_size_witness:
  "mm_malloc ds_unix 40 (returned (fresh ds_unix ap_FirstFit)) =
     Some (Inr (0x1028, snd (returned (mm_malloc ds_unix 40 (returned (fresh ds_unix ap_FirstFit)))))) \<and>
   (40 :: 64 word) \<noteq> 0 \<and> unat (40 :: 64 word) \<le> 2 ^ 64 - 48 \<and>
   unat (GET_SIZE (snd (returned (mm_malloc ds_unix 40 (returned (fresh ds_unix ap_FirstFit))))) (HDRP 0x1028)) = 64 \<and>
   GET_STATUS (snd (returned (mm_malloc ds_unix 40 (returned (fresh ds_unix ap_FirstFit))))) (HDRP 0x1028) = ALLOC"
proof -
  let ?s = "returned (fresh ds_unix ap_FirstFit)"
  let ?s' = "snd (returned (mm_malloc ds_unix 40 ?s))"
  have r: "mm_malloc ds_unix 40 ?s = Some (Inr (0x1028, ?s'))"
    by code_simp
  have c: "call_get_free_block (adjust 40) ?s = Some (Inr (0x1028, ?s))"
    by code_simp
  have n: "(40 :: 64 word) \<noteq> 0" "unat (40 :: 64 word) \<le> 2 ^ 64 - 48"
    by simp_all
  from mm_malloc_block_size [OF r n] c
  have "unat (GET_SIZE ?s' (HDRP 0x1028)) = 64 \<and> GET_STATUS ?s' (HDRP 0x1028) = ALLOC"
    by (simp add: NULL_def)
  with r n show ?thesis
    by simp
qed

text \<open>
  C5, as stated, fails. With first fit, after a request of 4000 bytes has taken the
  whole initial block, a request of 40 bytes extends the heap and its block has size
  4096, not 64. And a request of \<open>2^64 - 1\<close> bytes is served by a block of 32 bytes:
  the adjusted size wraps around.
\<close>

theorem mm_malloc_block_size_counterexample:
  "and_then (fresh ds_unix ap_FirstFit) (\<lambda>s.
   and_then (mm_malloc ds_unix 4000 s) (\<lambda>(a, s).
   and_then (mm_malloc ds_unix 40 s) (\<lambda>(b, s).
     Some (Inr (a, b, GET_SIZE s (HDRP b)))))) = Some (Inr (0x1028, 0x2000, 4096)) \<and>
   and_then (fresh ds_unix ap_FirstFit) (\<lambda>s.
   and_then (mm_malloc ds_unix 0xFFFFFFFFFFFFFFFF s) (\<lambda>(a, s).
     Some (Inr (a, GET_SIZE s (HDRP a))))) = Some (Inr (0x1028, 32))"
  by code_simp

section \<open>Zeroed allocation\<close>

lemma zero_words_keeps_zero: "m a = 0 \<Longrightarrow> zero_words k p m a = 0"
  by (induction k arbitrary: p m) simp_all

lemma zero_words_zero: "i < k \<Longrightarrow> zero_words k p m (p + 8 * word_of_nat i) = 0"
proof (induction k arbitrary: p m i)
  case 0
  then show ?case by simp
next
  case (Suc k)
  show ?case
  proof (cases i)
    case 0
    then show ?thesis by (simp add: zero_words_keeps_zero)
  next
    case (Suc j)
    with Suc.prems have "j < k" by simp
    then have "zero_words k (p + 8) (m(p := 0)) ((p + 8) + 8 * word_of_nat j) = 0"
      by (rule Suc.IH)
    moreover have "p + 8 * word_of_nat i = (p + 8) + 8 * word_of_nat j"
      by (simp add: Suc algebra_simps)
    ultimately show ?thesis by (simp only: zero_words.simps)
  qed
qed

lemma zero_words_other:
  "(\<And>i. i < k \<Longrightarrow> a \<noteq> p + 8 * word_of_nat i) \<Longrightarrow> zero_words k p m a = m a"
proof (induction k arbitrary: p m)
  case 0
  then show ?case by simp
next
  case (Suc k)
  have "a \<noteq> (p + 8) + 8 * word_of_nat i" if "i < k" for i
  proof -
    from that have "Suc i < Suc k" by simp
    then have "a \<noteq> p + 8 * word_of_nat (Suc i)" by (rule Suc.prems)
    then show ?thesis by (simp add: algebra_simps)
  qed
  then have "zero_words k (p + 8) (m(p := 0)) a = (m(p := 0)) a"
    by (rule Suc.IH)
  moreover have "a \<noteq> p"
    using Suc.prems [of 0] by simp
  ultimately show ?case by simp
qed

lemma zero_fill_zero:
  assumes "i < unat n div 8"
  shows "zero_fill p n m (p + 8 * word_of_nat i) = 0"
proof -
  define a where "a = p + 8 * word_of_nat i"
  define q where "q = p + 8 * (n div 8)"
  define m' where "m' = zero_words (unat n div 8) p m"
  have z: "m' a = 0"
    unfolding m'_def a_def using assms by (rule zero_words_zero)
  have "zero_fill p n m a =
          (if unat n mod 8 = 0 then m' else m'(q := m' q AND NOT (mask (8 * (unat n mod 8))))) a"
    by (simp only: zero_fill_def Let_def m'_def q_def)
  also have "\<dots> = 0"
    using z by (cases "a = q") simp_all
  finally show ?thesis
    by (simp only: a_def)
qed

lemma zero_fill_other:
  assumes "\<And>i. 8 * i < unat n \<Longrightarrow> a \<noteq> p + 8 * word_of_nat i"
  shows "zero_fill p n m a = m a"
proof -
  have z: "zero_words (unat n div 8) p m a = m a"
  proof (rule zero_words_other)
    fix i assume "i < unat n div 8"
    then have "8 * i < unat n" by simp
    then show "a \<noteq> p + 8 * word_of_nat i" by (rule assms)
  qed
  have "a \<noteq> p + 8 * (n div 8)" if "unat n mod 8 \<noteq> 0"
  proof -
    from that have "8 * (unat n div 8) < unat n"
      by (metis mult_div_mod_eq less_add_same_cancel1 neq0_conv)
    then have "a \<noteq> p + 8 * word_of_nat (unat n div 8)" by (rule assms)
    moreover have "(word_of_nat (unat n div 8) :: 64 word) = n div 8"
      by (simp add: word_arith_nat_div)
    ultimately show ?thesis by simp
  qed
  with z show ?thesis
    by (simp add: zero_fill_def Let_def)
qed

lemma header_not_in_payload:
  assumes "unat n \<le> 2 ^ 64 - 48" "8 * i < unat n"
  shows "HDRP bp \<noteq> bp + 8 * word_of_nat i"
proof
  assume "HDRP bp = bp + 8 * word_of_nat i"
  then have "(word_of_nat (8 * i) :: 64 word) = - 8"
    by (simp add: HDRP_def PREV_PTR_def TYPE_SIZE_def)
  moreover from assms have "8 * i < 2 ^ LENGTH(64)"
    by simp
  ultimately have "unat (- 8 :: 64 word) = 8 * i"
    by (rule of_nat_inverse)
  with assms show False
    by simp
qed


lemma unat_wrapped_product:
  "unat (nmemb * sz :: 64 word) = unat nmemb * unat sz mod 2 ^ 64"
  by (simp add: unat_word_ariths)

lemma wrapped_product:
  "nmemb * sz = (word_of_nat (unat nmemb * unat sz mod 2 ^ 64) :: 64 word)"
proof -
  have "(word_of_nat (unat (nmemb * sz)) :: 64 word) = nmemb * sz"
    by simp
  then show ?thesis
    unfolding unat_wrapped_product by (rule sym)
qed

lemma zero_fill_header:
  assumes "unat n \<le> 2 ^ 64 - 48"
  shows "zero_fill bp n m (HDRP bp) = m (HDRP bp)"
  by (rule zero_fill_other) (rule header_not_in_payload [OF assms])

lemma ds_bounds_PUT:
  "ds_heap_start (PUT p v s) = ds_heap_start s" "ds_heap_brk (PUT p v s) = ds_heap_brk s"
  "heap_end (PUT p v s) = heap_end s" "dseg (PUT p v s) = dseg s"
  by (simp_all add: PUT_def)

lemma ds_bounds_place:
  "ds_heap_start (place p a s) = ds_heap_start s" "ds_heap_brk (place p a s) = ds_heap_brk s"
  by (simp_all add: place_def Let_def ds_bounds_PUT)

lemma extend_returns:
  assumes "ds_sbrk D (max asize CHUNKSIZE) (dseg t) = (bp, d1)" "ds_sbrk D 0 d1 = (r2, d2)"
    and "r2 \<noteq> - 1"
  shows "\<exists>u. extend D asize t = Some (Inr (bp, u)) \<and> dseg u = d2 \<and> ds_heap_brk u = r2 \<and>
             heap_end u = (r2 - 1) div BS * BS \<and> ds_heap_start u = ds_heap_start t"
  using assms by (simp add: extend_def Let_def ds_bounds_PUT)

lemma mm_calloc_fill:
  assumes "mm_initialized s \<noteq> 0" "mm_malloc D (nmemb * sz) s = Some (Inr (bp, u))" "bp \<noteq> NULL"
    and "in_segment u bp (nmemb * sz)"
  shows "mm_calloc D nmemb sz s = Some (Inr (bp, u\<lparr>mem := zero_fill bp (nmemb * sz) (mem u)\<rparr>))"
  using assms by (simp add: mm_calloc_def memset_zero_def)

lemma mm_calloc_zero_product:
  assumes "mm_initialized s \<noteq> 0" "nmemb * sz = 0"
  shows "mm_calloc D nmemb sz s = Some (Inr (NULL, s))"
  using assms by (simp add: mm_calloc_def mm_malloc_def NULL_def)

lemma filled_block:
  assumes le: "unat n \<le> 2 ^ 64 - 48"
    and h: "GET u (HDRP bp) = PACK a ALLOC" and a: "STATUS a = 0"
  shows "GET (u\<lparr>mem := zero_fill bp n (mem u)\<rparr>) (HDRP bp) = PACK a ALLOC \<and>
         GET_SIZE (u\<lparr>mem := zero_fill bp n (mem u)\<rparr>) (HDRP bp) = a \<and>
         GET_STATUS (u\<lparr>mem := zero_fill bp n (mem u)\<rparr>) (HDRP bp) = ALLOC \<and>
         (\<forall>i < unat n div 8. mem (u\<lparr>mem := zero_fill bp n (mem u)\<rparr>) (bp + 8 * word_of_nat i) = 0)"
proof -
  let ?s = "u\<lparr>mem := zero_fill bp n (mem u)\<rparr>"
  have g: "GET ?s (HDRP bp) = PACK a ALLOC"
    using h by (simp add: GET_def zero_fill_header [OF le])
  have "GET_SIZE ?s (HDRP bp) = a"
    unfolding GET_SIZE_def g using a by simp
  moreover have "GET_STATUS ?s (HDRP bp) = ALLOC"
    unfolding GET_STATUS_def g using a by simp
  moreover have "\<forall>i < unat n div 8. mem ?s (bp + 8 * word_of_nat i) = 0"
    by (simp add: zero_fill_zero)
  ultimately show ?thesis
    using g by simp
qed

lemma mm_calloc_found:
  assumes i: "mm_initialized s \<noteq> 0" and nz: "nmemb * sz \<noteq> 0"
    and le: "unat (nmemb * sz) \<le> 2 ^ 64 - 48"
    and c: "call_get_free_block (adjust (nmemb * sz)) s = Some (Inr (p, t))" and p: "p \<noteq> NULL"
    and seg: "in_segment t p (nmemb * sz)"
  shows "\<exists>s'. s' = (place p (adjust (nmemb * sz)) t)
                  \<lparr>mem := zero_fill p (nmemb * sz) (mem (place p (adjust (nmemb * sz)) t))\<rparr> \<and>
           mm_calloc D nmemb sz s = Some (Inr (p, s')) \<and>
           GET_STATUS s' (HDRP p) = ALLOC \<and>
           unat (GET_SIZE s' (HDRP p)) = (unat (nmemb * sz) + 16 + 31) div 32 * 32 \<and>
           (\<forall>i < unat (nmemb * sz) div 8. mem s' (p + 8 * word_of_nat i) = 0)"
proof -
  let ?u = "place p (adjust (nmemb * sz)) t"
  have m: "mm_malloc D (nmemb * sz) s = Some (Inr (p, ?u))"
    using i nz c p by (simp add: mm_malloc_def)
  have "in_segment ?u p (nmemb * sz)"
    using seg by (simp add: in_segment_def ds_bounds_place)
  with i m p have r: "mm_calloc D nmemb sz s =
      Some (Inr (p, ?u\<lparr>mem := zero_fill p (nmemb * sz) (mem ?u)\<rparr>))"
    by (rule mm_calloc_fill)
  have h: "GET ?u (HDRP p) = PACK (adjust (nmemb * sz)) ALLOC"
    by (rule place_header)
  note f = filled_block [OF le h STATUS_adjust]
  from r f show ?thesis
    by (simp add: unat_adjust [OF le])
qed

lemma mm_calloc_grown:
  assumes i: "mm_initialized s \<noteq> 0" and nz: "nmemb * sz \<noteq> 0"
    and le: "unat (nmemb * sz) \<le> 2 ^ 64 - 48"
    and c: "call_get_free_block (adjust (nmemb * sz)) s = Some (Inr (NULL, t))"
    and g1: "ds_sbrk D (max (adjust (nmemb * sz)) CHUNKSIZE) (dseg t) = (bp, d1)"
    and g2: "ds_sbrk D 0 d1 = (r2, d2)" and r2: "r2 \<noteq> - 1" and bp: "bp \<noteq> NULL"
    and seg: "in_segment (t\<lparr>ds_heap_brk := r2\<rparr>) bp (nmemb * sz)"
  shows "\<exists>u s'. extend D (adjust (nmemb * sz)) t = Some (Inr (bp, u)) \<and>
           s' = u\<lparr>mem := zero_fill bp (nmemb * sz) (mem u)\<rparr> \<and>
           mm_calloc D nmemb sz s = Some (Inr (bp, s')) \<and>
           dseg s' = d2 \<and> ds_heap_brk s' = r2 \<and> heap_end s' = (r2 - 1) div BS * BS \<and>
           GET_STATUS s' (HDRP bp) = ALLOC \<and>
           unat (GET_SIZE s' (HDRP bp)) = max ((unat (nmemb * sz) + 16 + 31) div 32 * 32) 4096 \<and>
           (\<forall>i < unat (nmemb * sz) div 8. mem s' (bp + 8 * word_of_nat i) = 0)"
proof -
  from extend_returns [OF g1 g2 r2] obtain u where
    e: "extend D (adjust (nmemb * sz)) t = Some (Inr (bp, u))" and
    u: "dseg u = d2" "ds_heap_brk u = r2" "heap_end u = (r2 - 1) div BS * BS"
       "ds_heap_start u = ds_heap_start t"
    by blast
  have m: "mm_malloc D (nmemb * sz) s = Some (Inr (bp, u))"
    using i nz c e by (simp add: mm_malloc_def)
  have "in_segment u bp (nmemb * sz)"
    using seg u by (simp add: in_segment_def)
  with i m bp have r: "mm_calloc D nmemb sz s =
      Some (Inr (bp, u\<lparr>mem := zero_fill bp (nmemb * sz) (mem u)\<rparr>))"
    by (rule mm_calloc_fill)
  have h: "GET u (HDRP bp) = PACK (max (adjust (nmemb * sz)) CHUNKSIZE) ALLOC"
    using e STATUS_adjust by (rule extend_result)
  have sm: "STATUS (max (adjust (nmemb * sz)) CHUNKSIZE) = 0"
    by simp
  have c4: "unat CHUNKSIZE = 4096"
    by (simp add: CHUNKSIZE_def)
  note f = filled_block [OF le h sm]
  from e r f u show ?thesis
    by (simp add: unat_max unat_adjust [OF le] c4)
qed

text \<open>
  C10, as the code has it. \<^verbatim>\<open>mm_calloc(nmemb, size)\<close> passes the product modulo \<open>2^64\<close> to
  \<^verbatim>\<open>mm_malloc\<close> and, for a result other than \<^verbatim>\<open>NULL\<close>, fills that many bytes from the
  payload pointer on with zero; no overflow is detected. From an initialised manager:

  \<^item> A product that wraps to 0 returns \<^verbatim>\<open>NULL\<close> and leaves the state unchanged.

  \<^item> For a wrapped product \<open>w\<close> that is neither 0 nor above \<open>2^64 - 48\<close>, when the
    locator finds a block at \<open>p\<close> and the \<open>w\<close> bytes from \<open>p\<close> on lie in the data
    segment, the call returns \<open>p\<close>: the state is the one \<^verbatim>\<open>mm_malloc\<close> leaves, with the
    payload filled; the header at \<open>p - 8\<close> says allocated, with the size \<open>w + 16\<close>
    rounded up to a multiple of 32, and every full word of the first \<open>w\<close> bytes of the
    payload is zero.

  \<^item> For such a \<open>w\<close>, when the locator finds no block, the provider grows the segment,
    returns \<open>bp\<close> other than \<^verbatim>\<open>NULL\<close> and then reports an end \<open>r2\<close> other than -1, and the
    \<open>w\<close> bytes from \<open>bp\<close> on lie in the grown segment, the call returns \<open>bp\<close>: the
    header at \<open>bp - 8\<close> says allocated, with the larger of that size and 4096, and
    every full word of the first \<open>w\<close> bytes of the payload is zero.
\<close>

theorem mm_calloc_wraps:
  assumes "mm_initialized s \<noteq> 0"
  shows "unat (nmemb * sz) = unat nmemb * unat sz mod 2 ^ 64 \<and>
         (nmemb * sz = 0 \<longrightarrow> mm_calloc D nmemb sz s = Some (Inr (NULL, s))) \<and>
         (\<forall>p t. nmemb * sz \<noteq> 0 \<and> unat (nmemb * sz) \<le> 2 ^ 64 - 48 \<and>
            call_get_free_block (adjust (nmemb * sz)) s = Some (Inr (p, t)) \<and> p \<noteq> NULL \<and>
            in_segment t p (nmemb * sz) \<longrightarrow>
            (\<exists>s'. s' = (place p (adjust (nmemb * sz)) t)
                     \<lparr>mem := zero_fill p (nmemb * sz) (mem (place p (adjust (nmemb * sz)) t))\<rparr> \<and>
               mm_calloc D nmemb sz s = Some (Inr (p, s')) \<and>
               GET_STATUS s' (HDRP p) = ALLOC \<and>
               unat (GET_SIZE s' (HDRP p)) = (unat (nmemb * sz) + 16 + 31) div 32 * 32 \<and>
               (\<forall>i < unat (nmemb * sz) div 8. mem s' (p + 8 * word_of_nat i) = 0))) \<and>
         (\<forall>t bp d1 r2 d2. nmemb * sz \<noteq> 0 \<and> unat (nmemb * sz) \<le> 2 ^ 64 - 48 \<and>
            call_get_free_block (adjust (nmemb * sz)) s = Some (Inr (NULL, t)) \<and>
            ds_sbrk D (max (adjust (nmemb * sz)) CHUNKSIZE) (dseg t) = (bp, d1) \<and>
            ds_sbrk D 0 d1 = (r2, d2) \<and> r2 \<noteq> - 1 \<and> bp \<noteq> NULL \<and>
            in_segment (t\<lparr>ds_heap_brk := r2\<rparr>) bp (nmemb * sz) \<longrightarrow>
            (\<exists>u s'. extend D (adjust (nmemb * sz)) t = Some (Inr (bp, u)) \<and>
               s' = u\<lparr>mem := zero_fill bp (nmemb * sz) (mem u)\<rparr> \<and>
               mm_calloc D nmemb sz s = Some (Inr (bp, s')) \<and>
               dseg s' = d2 \<and> ds_heap_brk s' = r2 \<and> heap_end s' = (r2 - 1) div BS * BS \<and>
               GET_STATUS s' (HDRP bp) = ALLOC \<and>
               unat (GET_SIZE s' (HDRP bp)) = max ((unat (nmemb * sz) + 16 + 31) div 32 * 32) 4096 \<and>
               (\<forall>i < unat (nmemb * sz) div 8. mem s' (bp + 8 * word_of_nat i) = 0)))"
proof (intro conjI allI impI)
  show "unat (nmemb * sz) = unat nmemb * unat sz mod 2 ^ 64"
    by (rule unat_wrapped_product)
next
  assume "nmemb * sz = 0"
  with assms show "mm_calloc D nmemb sz s = Some (Inr (NULL, s))"
    by (rule mm_calloc_zero_product)
next
  fix p t
  assume "nmemb * sz \<noteq> 0 \<and> unat (nmemb * sz) \<le> 2 ^ 64 - 48 \<and>
            call_get_free_block (adjust (nmemb * sz)) s = Some (Inr (p, t)) \<and> p \<noteq> NULL \<and>
            in_segment t p (nmemb * sz)"
  then have "nmemb * sz \<noteq> 0" "unat (nmemb * sz) \<le> 2 ^ 64 - 48"
    "call_get_free_block (adjust (nmemb * sz)) s = Some (Inr (p, t))" "p \<noteq> NULL"
    "in_segment t p (nmemb * sz)"
    by simp_all
  with assms show "\<exists>s'. s' = (place p (adjust (nmemb * sz)) t)
                     \<lparr>mem := zero_fill p (nmemb * sz) (mem (place p (adjust (nmemb * sz)) t))\<rparr> \<and>
               mm_calloc D nmemb sz s = Some (Inr (p, s')) \<and>
               GET_STATUS s' (HDRP p) = ALLOC \<and>
               unat (GET_SIZE s' (HDRP p)) = (unat (nmemb * sz) + 16 + 31) div 32 * 32 \<and>
               (\<forall>i < unat (nmemb * sz) div 8. mem s' (p + 8 * word_of_nat i) = 0)"
    by (rule mm_calloc_found)
next
  fix t bp d1 r2 d2
  assume "nmemb * sz \<noteq> 0 \<and> unat (nmemb * sz) \<le> 2 ^ 64 - 48 \<and>
            call_get_free_block (adjust (nmemb * sz)) s = Some (Inr (NULL, t)) \<and>
            ds_sbrk D (max (adjust (nmemb * sz)) CHUNKSIZE) (dseg t) = (bp, d1) \<and>
            ds_sbrk D 0 d1 = (r2, d2) \<and> r2 \<noteq> - 1 \<and> bp \<noteq> NULL \<and>
            in_segment (t\<lparr>ds_heap_brk := r2\<rparr>) bp (nmemb * sz)"
  then have "nmemb * sz \<noteq> 0" "unat (nmemb * sz) \<le> 2 ^ 64 - 48"
    "call_get_free_block (adjust (nmemb * sz)) s = Some (Inr (NULL, t))"
    "ds_sbrk D (max (adjust (nmemb * sz)) CHUNKSIZE) (dseg t) = (bp, d1)"
    "ds_sbrk D 0 d1 = (r2, d2)" "r2 \<noteq> - 1" "bp \<noteq> NULL"
    "in_segment (t\<lparr>ds_heap_brk := r2\<rparr>) bp (nmemb * sz)"
    by simp_all
  with assms show "\<exists>u s'. extend D (adjust (nmemb * sz)) t = Some (Inr (bp, u)) \<and>
               s' = u\<lparr>mem := zero_fill bp (nmemb * sz) (mem u)\<rparr> \<and>
               mm_calloc D nmemb sz s = Some (Inr (bp, s')) \<and>
               dseg s' = d2 \<and> ds_heap_brk s' = r2 \<and> heap_end s' = (r2 - 1) div BS * BS \<and>
               GET_STATUS s' (HDRP bp) = ALLOC \<and>
               unat (GET_SIZE s' (HDRP bp)) = max ((unat (nmemb * sz) + 16 + 31) div 32 * 32) 4096 \<and>
               (\<forall>i < unat (nmemb * sz) div 8. mem s' (bp + 8 * word_of_nat i) = 0)"
    by (rule mm_calloc_grown)
qed

theorem mm_calloc_wraps_witness:
  "mm_initialized (returned (fresh ds_unix ap_FirstFit)) \<noteq> 0 \<and>
   (0x8000000000000000 :: 64 word) * 2 = 0 \<and>
   mm_calloc ds_unix 0x8000000000000000 2 (returned (fresh ds_unix ap_FirstFit)) =
     Some (Inr (NULL, returned (fresh ds_unix ap_FirstFit))) \<and>
   2 ^ 64 \<le> unat (0x2000000000000005 :: 64 word) * unat (8 :: 64 word) \<and>
   unat (0x2000000000000005 * 8 :: 64 word) = 40 \<and>
   call_get_free_block (adjust (0x2000000000000005 * 8)) (returned (fresh ds_unix ap_FirstFit)) =
     Some (Inr (0x1028, returned (fresh ds_unix ap_FirstFit))) \<and>
   in_segment (returned (fresh ds_unix ap_FirstFit)) 0x1028 (0x2000000000000005 * 8) \<and>
   mm_calloc ds_unix 0x2000000000000005 8 (returned (fresh ds_unix ap_FirstFit)) =
     Some (Inr (0x1028,
       snd (returned (mm_calloc ds_unix 0x2000000000000005 8 (returned (fresh ds_unix ap_FirstFit)))))) \<and>
   mem (snd (returned (mm_calloc ds_unix 0x2000000000000005 8 (returned (fresh ds_unix ap_FirstFit))))) 0x1028 = 0 \<and>
   mem (snd (returned (mm_calloc ds_unix 0x2000000000000005 8 (returned (fresh ds_unix ap_FirstFit))))) 0x1030 = 0 \<and>
   mem (snd (returned (mm_calloc ds_unix 0x2000000000000005 8 (returned (fresh ds_unix ap_FirstFit))))) 0x1038 = 0 \<and>
   mem (snd (returned (mm_calloc ds_unix 0x2000000000000005 8 (returned (fresh ds_unix ap_FirstFit))))) 0x1040 = 0 \<and>
   mem (snd (returned (mm_calloc ds_unix 0x2000000000000005 8 (returned (fresh ds_unix ap_FirstFit))))) 0x1048 = 0 \<and>
   GET_STATUS (snd (returned (mm_calloc ds_unix 0x2000000000000005 8 (returned (fresh ds_unix ap_FirstFit)))))
          (HDRP 0x1028) = ALLOC \<and>
   unat (GET_SIZE (snd (returned (mm_calloc ds_unix 0x2000000000000005 8 (returned (fresh ds_unix ap_FirstFit)))))
          (HDRP 0x1028)) = 64 \<and>
   mm_initialized (snd (returned (mm_malloc ds_unix 4000 (returned (fresh ds_unix ap_FirstFit))))) \<noteq> 0 \<and>
   call_get_free_block (adjust (0x2000000000000005 * 8))
       (snd (returned (mm_malloc ds_unix 4000 (returned (fresh ds_unix ap_FirstFit))))) =
     Some (Inr (NULL, snd (returned (mm_malloc ds_unix 4000 (returned (fresh ds_unix ap_FirstFit)))))) \<and>
   ds_sbrk ds_unix (max (adjust (0x2000000000000005 * 8)) CHUNKSIZE)
       (dseg (snd (returned (mm_malloc ds_unix 4000 (returned (fresh ds_unix ap_FirstFit)))))) =
     (0x2000, (0x1000, 0x3000)) \<and>
   ds_sbrk ds_unix 0 (0x1000, 0x3000) = (0x3000, (0x1000, 0x3000)) \<and>
   in_segment ((snd (returned (mm_malloc ds_unix 4000 (returned (fresh ds_unix ap_FirstFit)))))
       \<lparr>ds_heap_brk := 0x3000\<rparr>) 0x2000 (0x2000000000000005 * 8) \<and>
   mm_calloc ds_unix 0x2000000000000005 8
       (snd (returned (mm_malloc ds_unix 4000 (returned (fresh ds_unix ap_FirstFit))))) =
     Some (Inr (0x2000,
       snd (returned (mm_calloc ds_unix 0x2000000000000005 8
         (snd (returned (mm_malloc ds_unix 4000 (returned (fresh ds_unix ap_FirstFit))))))))) \<and>
   ds_heap_brk (snd (returned (mm_calloc ds_unix 0x2000000000000005 8
         (snd (returned (mm_malloc ds_unix 4000 (returned (fresh ds_unix ap_FirstFit)))))))) = 0x3000 \<and>
   mem (snd (returned (mm_calloc ds_unix 0x2000000000000005 8
         (snd (returned (mm_malloc ds_unix 4000 (returned (fresh ds_unix ap_FirstFit)))))))) 0x2020 = 0 \<and>
   GET_STATUS (snd (returned (mm_calloc ds_unix 0x2000000000000005 8
         (snd (returned (mm_malloc ds_unix 4000 (returned (fresh ds_unix ap_FirstFit))))))))
       (HDRP 0x2000) = ALLOC \<and>
   unat (GET_SIZE (snd (returned (mm_calloc ds_unix 0x2000000000000005 8
         (snd (returned (mm_malloc ds_unix 4000 (returned (fresh ds_unix ap_FirstFit))))))))
       (HDRP 0x2000)) = 4096"
proof -
  let ?s = "returned (fresh ds_unix ap_FirstFit)"
  let ?s' = "snd (returned (mm_calloc ds_unix 0x2000000000000005 8 ?s))"
  let ?t = "snd (returned (mm_malloc ds_unix 4000 ?s))"
  let ?t' = "snd (returned (mm_calloc ds_unix 0x2000000000000005 8 ?t))"
  have i: "mm_initialized ?s \<noteq> 0"
    by code_simp
  have z: "(0x8000000000000000 :: 64 word) * 2 = 0"
    by simp
  have o: "2 ^ 64 \<le> unat (0x2000000000000005 :: 64 word) * unat (8 :: 64 word)"
    by simp
  have w: "(0x2000000000000005 * 8 :: 64 word) = 40"
    by simp
  have w': "unat (0x2000000000000005 * 8 :: 64 word) = 40"
    by simp
  have nz: "(0x2000000000000005 * 8 :: 64 word) \<noteq> 0"
    by simp
  have le: "unat (0x2000000000000005 * 8 :: 64 word) \<le> 2 ^ 64 - 48"
    by simp
  have n: "(0x1028 :: addr) \<noteq> NULL"
    by (simp add: NULL_def)
  have c: "call_get_free_block (adjust (0x2000000000000005 * 8)) ?s = Some (Inr (0x1028, ?s))"
    by code_simp
  have seg: "in_segment ?s 0x1028 (0x2000000000000005 * 8)"
    by code_simp
  from mm_calloc_wraps [OF i, of "0x8000000000000000" 2 ds_unix] z
  have a: "mm_calloc ds_unix 0x8000000000000000 2 ?s = Some (Inr (NULL, ?s))"
    by blast
  from mm_calloc_wraps [OF i, of "0x2000000000000005" 8 ds_unix] nz le c n seg
  have "\<exists>s'. mm_calloc ds_unix 0x2000000000000005 8 ?s = Some (Inr (0x1028, s')) \<and>
          GET_STATUS s' (HDRP 0x1028) = ALLOC \<and>
          unat (GET_SIZE s' (HDRP 0x1028)) = (unat (0x2000000000000005 * 8 :: 64 word) + 16 + 31) div 32 * 32 \<and>
          (\<forall>i < unat (0x2000000000000005 * 8 :: 64 word) div 8. mem s' (0x1028 + 8 * word_of_nat i) = 0)"
    by blast
  then have b: "mm_calloc ds_unix 0x2000000000000005 8 ?s = Some (Inr (0x1028, ?s')) \<and>
          GET_STATUS ?s' (HDRP 0x1028) = ALLOC \<and>
          unat (GET_SIZE ?s' (HDRP 0x1028)) = 64 \<and>
          (\<forall>i<5. mem ?s' (0x1028 + 8 * word_of_nat i) = 0)"
    unfolding w' by (auto simp: returned_def)
  from b have r: "mm_calloc ds_unix 0x2000000000000005 8 ?s = Some (Inr (0x1028, ?s'))"
    and b0: "GET_STATUS ?s' (HDRP 0x1028) = ALLOC"
    and b2: "unat (GET_SIZE ?s' (HDRP 0x1028)) = 64"
    and b1: "\<forall>i<5. mem ?s' (0x1028 + 8 * word_of_nat i) = 0"
    by blast+
  have m0: "mem ?s' 0x1028 = 0"
    using b1 [rule_format, of 0] by simp
  have m1: "mem ?s' 0x1030 = 0"
    using b1 [rule_format, of 1] by simp
  have m2: "mem ?s' 0x1038 = 0"
    using b1 [rule_format, of 2] by simp
  have m3: "mem ?s' 0x1040 = 0"
    using b1 [rule_format, of 3] by simp
  have m4: "mem ?s' 0x1048 = 0"
    using b1 [rule_format, of 4] by simp
  have i2: "mm_initialized ?t \<noteq> 0"
    by code_simp
  have c2: "call_get_free_block (adjust (0x2000000000000005 * 8)) ?t = Some (Inr (NULL, ?t))"
    by code_simp
  have g1: "ds_sbrk ds_unix (max (adjust (0x2000000000000005 * 8)) CHUNKSIZE) (dseg ?t) =
              (0x2000, (0x1000, 0x3000))"
    by code_simp
  have g2: "ds_sbrk ds_unix 0 (0x1000, 0x3000) = (0x3000, (0x1000, 0x3000))"
    by code_simp
  have r2: "(0x3000 :: addr) \<noteq> - 1"
    by simp
  have n2: "(0x2000 :: addr) \<noteq> NULL"
    by (simp add: NULL_def)
  have seg2: "in_segment (?t\<lparr>ds_heap_brk := 0x3000\<rparr>) 0x2000 (0x2000000000000005 * 8)"
    by code_simp
  from mm_calloc_wraps [OF i2, of "0x2000000000000005" 8 ds_unix] nz le c2 g1 g2 r2 n2 seg2
  have "\<exists>s'. mm_calloc ds_unix 0x2000000000000005 8 ?t = Some (Inr (0x2000, s')) \<and>
          ds_heap_brk s' = 0x3000 \<and>
          GET_STATUS s' (HDRP 0x2000) = ALLOC \<and>
          unat (GET_SIZE s' (HDRP 0x2000)) =
            max ((unat (0x2000000000000005 * 8 :: 64 word) + 16 + 31) div 32 * 32) 4096 \<and>
          (\<forall>i < unat (0x2000000000000005 * 8 :: 64 word) div 8. mem s' (0x2000 + 8 * word_of_nat i) = 0)"
    by blast
  then have d: "mm_calloc ds_unix 0x2000000000000005 8 ?t = Some (Inr (0x2000, ?t')) \<and>
          ds_heap_brk ?t' = 0x3000 \<and>
          GET_STATUS ?t' (HDRP 0x2000) = ALLOC \<and>
          unat (GET_SIZE ?t' (HDRP 0x2000)) = 4096 \<and>
          (\<forall>i<5. mem ?t' (0x2000 + 8 * word_of_nat i) = 0)"
    unfolding w' by (auto simp: returned_def)
  from d have e: "mm_calloc ds_unix 0x2000000000000005 8 ?t = Some (Inr (0x2000, ?t'))"
    and d0: "ds_heap_brk ?t' = 0x3000"
    and d1: "GET_STATUS ?t' (HDRP 0x2000) = ALLOC"
    and d2: "unat (GET_SIZE ?t' (HDRP 0x2000)) = 4096"
    and d3: "\<forall>i<5. mem ?t' (0x2000 + 8 * word_of_nat i) = 0"
    by blast+
  have m5: "mem ?t' 0x2020 = 0"
    using d3 [rule_format, of 4] by simp
  show ?thesis
    by (intro conjI) (rule i z a o w' c seg r m0 m1 m2 m3 m4 b0 b2 i2 c2 g1 g2 seg2 e d0 m5 d1 d2)+
qed

text \<open>
  C10, as stated, fails: the block is not always sized by the wrapped product, and
  the call does not always return. \<^verbatim>\<open>mm_calloc(2, 0xFFFFFFFFFFFFFFFC)\<close> after
  \<^verbatim>\<open>mm_init\<close>: the product wraps to \<open>2^64 - 8\<close>, which is not 0; the adjusted size wraps
  a second time, to 32; \<^verbatim>\<open>mm_malloc\<close> returns 0x1028, a block of 32 bytes, in a data
  segment that ends at 0x2000; and the fill of \<open>2^64 - 8\<close> bytes from 0x1028 on leaves
  the segment, so that the process ends with an access violation.
\<close>

theorem mm_calloc_wraps_counterexample:
  "mm_initialized (returned (fresh ds_unix ap_FirstFit)) \<noteq> 0 \<and>
   2 ^ 64 \<le> unat (2 :: 64 word) * unat (0xFFFFFFFFFFFFFFFC :: 64 word) \<and>
   (2 * 0xFFFFFFFFFFFFFFFC :: 64 word) = 0xFFFFFFFFFFFFFFF8 \<and>
   adjust (2 * 0xFFFFFFFFFFFFFFFC) = 32 \<and>
   mm_malloc ds_unix (2 * 0xFFFFFFFFFFFFFFFC) (returned (fresh ds_unix ap_FirstFit)) =
     Some (Inr (0x1028,
       snd (returned (mm_malloc ds_unix (2 * 0xFFFFFFFFFFFFFFFC) (returned (fresh ds_unix ap_FirstFit)))))) \<and>
   GET_SIZE (snd (returned (mm_malloc ds_unix (2 * 0xFFFFFFFFFFFFFFFC) (returned (fresh ds_unix ap_FirstFit)))))
     (HDRP 0x1028) = 32 \<and>
   ds_heap_brk (snd (returned (mm_malloc ds_unix (2 * 0xFFFFFFFFFFFFFFFC) (returned (fresh ds_unix ap_FirstFit))))) =
     0x2000 \<and>
   mm_calloc ds_unix 2 0xFFFFFFFFFFFFFFFC (returned (fresh ds_unix ap_FirstFit)) = Some (Inl SIGSEGV)"
proof -
  have "2 ^ 64 \<le> unat (2 :: 64 word) * unat (0xFFFFFFFFFFFFFFFC :: 64 word)"
    by simp
  moreover have "(2 * 0xFFFFFFFFFFFFFFFC :: 64 word) = 0xFFFFFFFFFFFFFFF8"
    by simp
  moreover have "mm_initialized (returned (fresh ds_unix ap_FirstFit)) \<noteq> 0"
    by code_simp
  moreover have "adjust (2 * 0xFFFFFFFFFFFFFFFC) = 32"
    by code_simp
  moreover have "mm_malloc ds_unix (2 * 0xFFFFFFFFFFFFFFFC) (returned (fresh ds_unix ap_FirstFit)) =
     Some (Inr (0x1028,
       snd (returned (mm_malloc ds_unix (2 * 0xFFFFFFFFFFFFFFFC) (returned (fresh ds_unix ap_FirstFit))))))"
    by code_simp
  moreover have "GET_SIZE (snd (returned (mm_malloc ds_unix (2 * 0xFFFFFFFFFFFFFFFC) (returned (fresh ds_unix ap_FirstFit)))))
     (HDRP 0x1028) = 32"
    by code_simp
  moreover have "ds_heap_brk (snd (returned (mm_malloc ds_unix (2 * 0xFFFFFFFFFFFFFFFC) (returned (fresh ds_unix ap_FirstFit))))) =
     0x2000"
    by code_simp
  moreover have "mm_calloc ds_unix 2 0xFFFFFFFFFFFFFFFC (returned (fresh ds_unix ap_FirstFit)) = Some (Inl SIGSEGV)"
    by code_simp
  ultimately show ?thesis
    by (intro conjI)
qed

section \<open>Next fit\<close>

lemma GET_SIZE_cong: "mem t = mem s \<Longrightarrow> GET_SIZE t p = GET_SIZE s p"
  by (simp add: GET_SIZE_def GET_def)

lemma GET_STATUS_cong: "mem t = mem s \<Longrightarrow> GET_STATUS t p = GET_STATUS s p"
  by (simp add: GET_STATUS_def GET_def)

lemma skips_cong:
  assumes "skips s sz p q" "mem t = mem s" "heap_end t = heap_end s"
  shows "skips t sz p q"
  using assms
proof (induction rule: skips.induct)
  case (stay p)
  show ?case by (rule skips.stay)
next
  case (pass p q)
  have g: "GET_SIZE t p = GET_SIZE s p"
    by (rule GET_SIZE_cong [OF pass.prems(1)])
  have st: "GET_STATUS t p = GET_STATUS s p"
    by (rule GET_STATUS_cong [OF pass.prems(1)])
  show ?case
  proof (rule skips.pass)
    show "p < heap_end t"
      unfolding pass.prems(2) by (rule pass.hyps(1))
    show "GET_SIZE t p < sz \<or> GET_STATUS t p = ALLOC"
      unfolding g st by (rule pass.hyps(2))
    show "skips t sz (p + GET_SIZE t p) q"
      unfolding g by (rule pass.IH [OF pass.prems])
  qed
qed

lemma nf_loop_terminates:
  assumes "tiles s p"
  shows "mem t = mem s \<Longrightarrow> heap_end t = heap_end s \<Longrightarrow> nf_ptr t = p \<Longrightarrow> \<exists>t'. nf_loop sz t = Some t'"
  using assms
proof (induction arbitrary: t rule: tiles.induct)
  case (at_end p)
  from at_end have "nf_ptr t = heap_end t" by (simp only:)
  then have "\<not> nf_ptr t < heap_end t" by (simp only: less_irrefl not_False_eq_True)
  then have "nf_loop sz t = Some t"
    by (subst nf_loop.simps) (simp only: simp_thms if_False)
  then show ?case by (rule exI)
next
  case (block p)
  let ?t = "t\<lparr>nf_ptr := nf_ptr t + GET_SIZE t (nf_ptr t)\<rparr>"
  have "\<exists>t'. nf_loop sz ?t = Some t'"
  proof (rule block.IH)
    show "mem ?t = mem s" using block.prems(1) by simp
    show "heap_end ?t = heap_end s" using block.prems(2) by simp
    have "GET_SIZE t p = GET_SIZE s p" using block.prems(1) by (rule GET_SIZE_cong)
    then show "nf_ptr ?t = p + GET_SIZE s p" using block.prems(3) by simp
  qed
  then obtain t' where t': "nf_loop sz ?t = Some t'" ..
  show ?case
  proof (cases "nf_ptr t < heap_end t \<and> (sz > GET_SIZE t (nf_ptr t) \<or> GET_STATUS t (nf_ptr t) = ALLOC)")
    case True
    then have "nf_loop sz t = Some t'"
      by (subst nf_loop.simps) (simp only: if_True t' simp_thms)
    then show ?thesis by (rule exI)
  next
    case False
    then have "nf_loop sz t = Some t"
      by (subst nf_loop.simps) (simp only: if_False)
    then show ?thesis by (rule exI)
  qed
qed


lemma nf_loop_result:
  assumes "nf_loop sz s = Some s'"
  shows "\<exists>q. s' = s\<lparr>nf_ptr := q\<rparr> \<and> skips s sz (nf_ptr s) q \<and>
             \<not> (q < heap_end s \<and> (sz > GET_SIZE s q \<or> GET_STATUS s q = ALLOC))"
proof (rule nf_loop.raw_induct [where P = "\<lambda>sz s s'. \<exists>q. s' = s\<lparr>nf_ptr := q\<rparr> \<and>
      skips s sz (nf_ptr s) q \<and>
      \<not> (q < heap_end s \<and> (sz > GET_SIZE s q \<or> GET_STATUS s q = ALLOC))", OF _ assms])
  fix loop :: "64 word \<Rightarrow> 'a mm_state \<Rightarrow> 'a mm_state option" and sz s s'
  assume IH: "\<And>sz s s'. loop sz s = Some s' \<Longrightarrow>
      \<exists>q. s' = s\<lparr>nf_ptr := q\<rparr> \<and> skips s sz (nf_ptr s) q \<and>
          \<not> (q < heap_end s \<and> (sz > GET_SIZE s q \<or> GET_STATUS s q = ALLOC))"
    and step: "(if nf_ptr s < heap_end s \<and>
                   (GET_SIZE s (nf_ptr s) < sz \<or> GET_STATUS s (nf_ptr s) = ALLOC)
                then loop sz (s\<lparr>nf_ptr := nf_ptr s + GET_SIZE s (nf_ptr s)\<rparr>)
                else Some s) = Some s'"
  show "\<exists>q. s' = s\<lparr>nf_ptr := q\<rparr> \<and> skips s sz (nf_ptr s) q \<and>
          \<not> (q < heap_end s \<and> (sz > GET_SIZE s q \<or> GET_STATUS s q = ALLOC))"
  proof (cases "nf_ptr s < heap_end s \<and> (sz > GET_SIZE s (nf_ptr s) \<or> GET_STATUS s (nf_ptr s) = ALLOC)")
    case True
    let ?t = "s\<lparr>nf_ptr := nf_ptr s + GET_SIZE s (nf_ptr s)\<rparr>"
    from True step have "loop sz ?t = Some s'"
      by (simp only: if_True simp_thms)
    then have "\<exists>q. s' = ?t\<lparr>nf_ptr := q\<rparr> \<and> skips ?t sz (nf_ptr ?t) q \<and>
         \<not> (q < heap_end ?t \<and> (sz > GET_SIZE ?t q \<or> GET_STATUS ?t q = ALLOC))"
      by (rule IH)
    then obtain q where q1: "s' = ?t\<lparr>nf_ptr := q\<rparr>" and q2: "skips ?t sz (nf_ptr ?t) q"
      and q3: "\<not> (q < heap_end ?t \<and> (sz > GET_SIZE ?t q \<or> GET_STATUS ?t q = ALLOC))"
      by blast
    have m: "mem s = mem ?t" "heap_end s = heap_end ?t"
      by simp_all
    from q2 have "skips ?t sz (nf_ptr s + GET_SIZE s (nf_ptr s)) q"
      by simp
    then have k: "skips s sz (nf_ptr s + GET_SIZE s (nf_ptr s)) q"
      using m by (rule skips_cong)
    from True have a: "nf_ptr s < heap_end s"
      and b: "GET_SIZE s (nf_ptr s) < sz \<or> GET_STATUS s (nf_ptr s) = ALLOC"
      by (rule conjunct1, rule conjunct2)
    from a b k have "skips s sz (nf_ptr s) q"
      by (rule skips.pass)
    moreover from q1 have "s' = s\<lparr>nf_ptr := q\<rparr>"
      by simp
    moreover from q3 have "\<not> (q < heap_end s \<and> (sz > GET_SIZE s q \<or> GET_STATUS s q = ALLOC))"
      by (simp add: GET_SIZE_def GET_STATUS_def GET_def)
    ultimately show ?thesis by blast
  next
    case False
    with step have "s' = s"
      by (simp only: if_False option.inject simp_thms)
    have "s = s\<lparr>nf_ptr := nf_ptr s\<rparr>"
      by simp
    with False show ?thesis
      unfolding \<open>s' = s\<close> by (intro exI [of _ "nf_ptr s"] conjI skips.stay)
  qed
qed

text \<open>
  C8. The next-fit locator scans forward from the cursor (from \<open>heap_start\<close> when the
  cursor is \<^verbatim>\<open>NULL\<close>), passing only over blocks below \<open>heap_end\<close> that are too small
  or allocated. When the scan stops below \<open>heap_end\<close>, the block there is large
  enough and not allocated, its payload pointer is returned and the cursor is left at
  that block. When it stops at or beyond \<open>heap_end\<close>, the result is \<^verbatim>\<open>NULL\<close> and the
  cursor is reset to \<^verbatim>\<open>NULL\<close>, with no second pass from \<open>heap_start\<close>: the
  following search is the one that starts there. The call returns whenever the blocks
  from the cursor on end exactly at \<open>heap_end\<close>.
\<close>

theorem nf_get_free_block_scan:
  assumes "mm_initialized s \<noteq> 0"
  shows "(\<forall>r s'. nf_get_free_block sz s = Some (Inr (r, s')) \<longrightarrow>
            (\<exists>q. skips s sz (nf_start s) q \<and>
                 (if q < heap_end s
                  then sz \<le> GET_SIZE s q \<and> GET_STATUS s q \<noteq> ALLOC \<and>
                       r = NEXT_PTR q \<and> s' = s\<lparr>nf_ptr := q\<rparr>
                  else r = NULL \<and> s' = s\<lparr>nf_ptr := NULL\<rparr> \<and> nf_start s' = heap_start s))) \<and>
         (tiles s (nf_start s) \<longrightarrow> (\<exists>r s'. nf_get_free_block sz s = Some (Inr (r, s'))))"
proof -
  define s0 where "s0 = (if nf_ptr s = NULL then s\<lparr>nf_ptr := heap_start s\<rparr> else s)"
  have s0: "mem s0 = mem s" "heap_end s0 = heap_end s" "nf_ptr s0 = nf_start s"
    "heap_start s0 = heap_start s"
    by (simp_all add: s0_def nf_start_def)
  have upd: "s0\<lparr>nf_ptr := q\<rparr> = s\<lparr>nf_ptr := q\<rparr>" for q
    by (simp add: s0_def)
  have unfold: "nf_get_free_block sz s =
      (case nf_loop sz s0 of
         None \<Rightarrow> None
       | Some t \<Rightarrow>
           if nf_ptr t < heap_end t then Some (Inr (NEXT_PTR (nf_ptr t), t))
           else Some (Inr (NULL, t\<lparr>nf_ptr := NULL\<rparr>)))"
    using assms by (simp add: nf_get_free_block_def Let_def s0_def)
  have part1: "\<exists>q. skips s sz (nf_start s) q \<and>
                 (if q < heap_end s
                  then sz \<le> GET_SIZE s q \<and> GET_STATUS s q \<noteq> ALLOC \<and>
                       r = NEXT_PTR q \<and> s' = s\<lparr>nf_ptr := q\<rparr>
                  else r = NULL \<and> s' = s\<lparr>nf_ptr := NULL\<rparr> \<and> nf_start s' = heap_start s)"
    if ret: "nf_get_free_block sz s = Some (Inr (r, s'))" for r s'
  proof -
    from ret have "nf_loop sz s0 \<noteq> None"
      unfolding unfold by (cases "nf_loop sz s0") simp_all
    then obtain t where t: "nf_loop sz s0 = Some t"
      by blast
    from ret have res: "(if nf_ptr t < heap_end t then Some (Inr (NEXT_PTR (nf_ptr t), t))
                 else Some (Inr (NULL, t\<lparr>nf_ptr := NULL\<rparr>))) =
                (Some (Inr (r, s')) :: (error + _) option)"
      unfolding unfold t by (simp only: option.case)
    from nf_loop_result [OF t] obtain q where q1: "t = s0\<lparr>nf_ptr := q\<rparr>"
      and q2: "skips s0 sz (nf_ptr s0) q"
      and q3: "\<not> (q < heap_end s0 \<and> (sz > GET_SIZE s0 q \<or> GET_STATUS s0 q = ALLOC))"
      by blast
    have t': "t = s\<lparr>nf_ptr := q\<rparr>"
      unfolding q1 by (rule upd)
    have k: "skips s sz (nf_start s) q"
      using q2 s0(1,2) [symmetric] unfolding s0(3) by (rule skips_cong)
    have stop: "\<not> (q < heap_end s \<and> (sz > GET_SIZE s q \<or> GET_STATUS s q = ALLOC))"
      using q3 by (simp add: s0 GET_SIZE_def GET_STATUS_def GET_def)
    show ?thesis
    proof (cases "q < heap_end s")
      case True
      with res have "r = NEXT_PTR q" "s' = s\<lparr>nf_ptr := q\<rparr>"
        unfolding t' by simp_all
      moreover from True stop have "sz \<le> GET_SIZE s q" "GET_STATUS s q \<noteq> ALLOC"
        by auto
      ultimately show ?thesis
        using k True by (intro exI [of _ q]) simp
    next
      case False
      with res have "r = NULL" "s' = s\<lparr>nf_ptr := NULL\<rparr>"
        unfolding t' by simp_all
      then show ?thesis
        using k False by (intro exI [of _ q]) (simp add: nf_start_def)
    qed
  qed
  have part2: "\<exists>r s'. nf_get_free_block sz s = Some (Inr (r, s'))" if "tiles s (nf_start s)"
  proof -
    from that s0 obtain t where "nf_loop sz s0 = Some t"
      using nf_loop_terminates [of s "nf_start s" s0 sz] by blast
    then show ?thesis
      unfolding unfold by simp
  qed
  from part1 part2 show ?thesis
    by blast
qed

theorem nf_get_free_block_scan_witness:
  "mm_initialized (returned nf_heap) \<noteq> 0 \<and>
   nf_start (returned nf_heap) = 0x10E0 \<and>
   tiles (returned nf_heap) (nf_start (returned nf_heap)) \<and>
   GET_STATUS (returned nf_heap) 0x10A0 = FREE \<and>
   GET_SIZE (returned nf_heap) 0x10A0 = 64 \<and>
   nf_get_free_block 64 (returned nf_heap) = Some (Inr (NULL, (returned nf_heap)\<lparr>nf_ptr := NULL\<rparr>)) \<and>
   (\<exists>q. skips (returned nf_heap) 64 (nf_start (returned nf_heap)) q \<and>
      (if q < heap_end (returned nf_heap)
       then 64 \<le> GET_SIZE (returned nf_heap) q \<and> GET_STATUS (returned nf_heap) q \<noteq> ALLOC \<and>
            NULL = NEXT_PTR q \<and> (returned nf_heap)\<lparr>nf_ptr := NULL\<rparr> = (returned nf_heap)\<lparr>nf_ptr := q\<rparr>
       else NULL = NULL \<and> (returned nf_heap)\<lparr>nf_ptr := NULL\<rparr> = (returned nf_heap)\<lparr>nf_ptr := NULL\<rparr> \<and>
            nf_start ((returned nf_heap)\<lparr>nf_ptr := NULL\<rparr>) = heap_start (returned nf_heap))) \<and>
   nf_get_free_block 64 ((returned nf_heap)\<lparr>nf_ptr := NULL\<rparr>) =
     Some (Inr (0x10A8, (returned nf_heap)\<lparr>nf_ptr := 0x10A0\<rparr>))"
proof -
  let ?S = "returned nf_heap"
  have i: "mm_initialized ?S \<noteq> 0"
    by code_simp
  have st: "nf_start ?S = 0x10E0"
    by code_simp
  have e: "0x10E0 + GET_SIZE ?S 0x10E0 = heap_end ?S"
    by code_simp
  have l: "0x10E0 < heap_end ?S"
    by code_simp
  have "tiles ?S (heap_end ?S)"
    by (rule tiles.at_end) (rule refl)
  then have "tiles ?S (0x10E0 + GET_SIZE ?S 0x10E0)"
    by (simp only: e)
  with l have "tiles ?S 0x10E0"
    by (rule tiles.block)
  then have t: "tiles ?S (nf_start ?S)"
    by (simp only: st)
  have f: "GET_STATUS ?S 0x10A0 = FREE" "GET_SIZE ?S 0x10A0 = 64"
    by code_simp+
  have r1: "nf_get_free_block 64 ?S = Some (Inr (NULL, ?S\<lparr>nf_ptr := NULL\<rparr>))"
    by code_simp
  have r2: "nf_get_free_block 64 (?S\<lparr>nf_ptr := NULL\<rparr>) = Some (Inr (0x10A8, ?S\<lparr>nf_ptr := 0x10A0\<rparr>))"
    by code_simp
  note inst = nf_get_free_block_scan [OF i, of 64]
  from inst r1 have q: "\<exists>q. skips ?S 64 (nf_start ?S) q \<and>
      (if q < heap_end ?S
       then 64 \<le> GET_SIZE ?S q \<and> GET_STATUS ?S q \<noteq> ALLOC \<and>
            NULL = NEXT_PTR q \<and> ?S\<lparr>nf_ptr := NULL\<rparr> = ?S\<lparr>nf_ptr := q\<rparr>
       else NULL = NULL \<and> ?S\<lparr>nf_ptr := NULL\<rparr> = ?S\<lparr>nf_ptr := NULL\<rparr> \<and>
            nf_start (?S\<lparr>nf_ptr := NULL\<rparr>) = heap_start ?S)"
    by blast
  show ?thesis
    by (intro conjI) (rule i st t f r1 q r2)+
qed

section \<open>Releasing twice\<close>

lemma STATUS_diff [simp]: "STATUS a = 0 \<Longrightarrow> STATUS b = 0 \<Longrightarrow> STATUS (a - b) = 0"
  by (simp add: STATUS_zero_iff_dvd)

lemma STATUS_and [simp]:
  assumes "STATUS a = 0"
  shows "STATUS (a AND b) = 0"
proof -
  have "STATUS (a AND b) = STATUS a AND b"
    unfolding STATUS_def by (simp add: ac_simps)
  with assms show ?thesis
    by simp
qed

lemma GET_STATUS_PUT_other: "h \<noteq> p \<Longrightarrow> GET_STATUS (PUT p v s) h = GET_STATUS s h"
  by (simp add: GET_STATUS_def GET_def PUT_def)

lemma FTRP_place: "STATUS asize = 0 \<Longrightarrow> FTRP (place bp asize s) bp = PREV_PTR (HDRP bp + asize)"
  by (simp add: FTRP_def GET_SIZE_def place_header)

lemma GET_PUT_same [simp]: "GET (PUT p v s) p = v"
  by (simp add: GET_def PUT_def)

lemma place_keeps_FREE:
  assumes "GET_STATUS s h = 0" "STATUS asize = 0" "h \<noteq> HDRP bp" "h \<noteq> FTRP (place bp asize s) bp"
  shows "GET_STATUS (place bp asize s) h = 0"
proof -
  from assms(2,4) have f: "h \<noteq> PREV_PTR (HDRP bp + asize)"
    by (simp add: FTRP_place)
  have ft: "FTRP (PUT (HDRP bp) (PACK asize ALLOC) t) bp = PREV_PTR (HDRP bp + asize)" for t :: "'a mm_state"
    using assms(2) by (simp add: FTRP_def GET_SIZE_def)
  show ?thesis
    using assms(1,2,3) f
    by (simp add: place_def Let_def ft GET_STATUS_PUT_other GET_STATUS_PUT_keeps)
qed


lemma extend_keeps_FREE:
  assumes "extend D asize s = Some (Inr (bp, s'))" "GET_STATUS s h = 0" "STATUS asize = 0"
    and "h \<noteq> HDRP bp" "h \<noteq> FTRP s' bp" "h \<noteq> heap_end s'"
  shows "GET_STATUS s' h = 0"
proof -
  obtain r1 d1 where a: "ds_sbrk D (max asize CHUNKSIZE) (dseg s) = (r1, d1)"
    by (cases "ds_sbrk D (max asize CHUNKSIZE) (dseg s)")
  obtain r2 d2 where b: "ds_sbrk D 0 d1 = (r2, d2)"
    by (cases "ds_sbrk D 0 d1")
  let ?x = "max asize CHUNKSIZE"
  let ?s3 = "s\<lparr>dseg := d2, ds_heap_brk := r2, heap_end := (r2 - 1) div BS * BS\<rparr>"
  let ?s4 = "PUT (heap_end ?s3) (PACK 0 ALLOC) ?s3"
  let ?s5 = "PUT (HDRP bp) (PACK ?x ALLOC) ?s4"
  let ?s6 = "PUT (FTRP ?s5 bp) (PACK ?x ALLOC) ?s5"
  from assms(1) have bp: "bp = r1" and s': "s' = ?s6"
    unfolding extend_def Let_def by (auto simp: a b split: if_splits)
  have he: "heap_end s' = heap_end ?s3"
    unfolding s' by (simp add: PUT_def)
  have h: "GET s' (HDRP bp) = PACK ?x ALLOC"
    using assms(1,3) by (rule extend_result)
  have ft: "FTRP s' bp = FTRP ?s5 bp"
    using assms(3) by (simp add: FTRP_def GET_SIZE_def h)
  have "GET_STATUS ?s3 h = 0"
    using assms(2) by (simp add: GET_STATUS_def GET_def)
  with assms(6) have "GET_STATUS ?s4 h = 0"
    unfolding he by (simp add: GET_STATUS_PUT_other)
  with assms(4) have "GET_STATUS ?s5 h = 0"
    by (simp add: GET_STATUS_PUT_other)
  with assms(5) have "GET_STATUS ?s6 h = 0"
    unfolding ft by (simp add: GET_STATUS_PUT_other)
  then show ?thesis
    by (simp only: s')
qed

lemma call_get_free_block_state:
  assumes "call_get_free_block sz s = Some (Inr (p, t))"
  shows "mem t = mem s \<and> mm_initialized t = mm_initialized s"
proof (cases "get_free_block s")
  case None
  with assms show ?thesis
    by (simp add: call_get_free_block_def)
next
  case (Some ap)
  show ?thesis
  proof (cases ap)
    case ap_FirstFit
    with Some assms obtain x :: "error + addr"
      where "map_sum id (\<lambda>bp. (bp, s)) x = Inr (p, t)"
      by (cases "ff_get_free_block sz s") (auto simp: call_get_free_block_def)
    then have "t = s"
      by (cases x) simp_all
    then show ?thesis by simp
  next
    case ap_BestFit
    with Some assms obtain x :: "error + addr"
      where "map_sum id (\<lambda>bp. (bp, s)) x = Inr (p, t)"
      by (cases "bf_get_free_block sz s") (auto simp: call_get_free_block_def)
    then have "t = s"
      by (cases x) simp_all
    then show ?thesis by simp
  next
    case ap_NextFit
    with Some assms have n: "nf_get_free_block sz s = Some (Inr (p, t))"
      by (simp add: call_get_free_block_def)
    let ?s0 = "if nf_ptr s = NULL then s\<lparr>nf_ptr := heap_start s\<rparr> else s"
    from n obtain u where u: "nf_loop sz ?s0 = Some u" and t: "t = u \<or> t = u\<lparr>nf_ptr := NULL\<rparr>"
      by (auto simp: nf_get_free_block_def Let_def split: if_splits option.splits)
    from nf_loop_result [OF u] obtain q where "u = ?s0\<lparr>nf_ptr := q\<rparr>"
      by blast
    then have "mem u = mem s \<and> mm_initialized u = mm_initialized s"
      by (simp split: if_splits)
    with t show ?thesis
      by auto
  qed
qed


lemma mm_initialized_place [simp]: "mm_initialized (place bp asize s) = mm_initialized s"
  by (simp add: place_def Let_def)

lemma mm_initialized_extend:
  "extend D asize s = Some (Inr (bp, s')) \<Longrightarrow> mm_initialized s' = mm_initialized s"
  unfolding extend_def Let_def
  by (auto split: prod.splits if_splits)

lemma mm_malloc_cases:
  assumes "mm_malloc D n s = Some (Inr (bp, s'))"
  obtains "n = 0" "s' = s"
  | p t where "call_get_free_block (adjust n) s = Some (Inr (p, t))" "p \<noteq> NULL" "bp = p"
      "s' = place p (adjust n) t"
  | t where "call_get_free_block (adjust n) s = Some (Inr (NULL, t))"
      "extend D (adjust n) t = Some (Inr (bp, s'))"
  using assms unfolding mm_malloc_def Let_def
  by (auto split: if_splits option.splits sum.splits prod.splits)

lemma mm_malloc_keeps_FREE:
  assumes "mm_malloc D n s = Some (Inr (bp, s'))" "GET_STATUS s h = 0"
    and "h \<noteq> HDRP bp" "h \<noteq> FTRP s' bp" "h \<noteq> heap_end s'"
  shows "GET_STATUS s' h = 0 \<and> mm_initialized s' = mm_initialized s"
  using assms(1)
proof (cases rule: mm_malloc_cases)
  case 1
  with assms(2) show ?thesis by simp
next
  case (2 p t)
  note c = call_get_free_block_state [OF 2(1)]
  from c assms(2) have "GET_STATUS t h = 0"
    by (simp add: GET_STATUS_def GET_def)
  moreover from assms(3,4) 2 have "h \<noteq> HDRP p" "h \<noteq> FTRP (place p (adjust n) t) p"
    by simp_all
  ultimately have "GET_STATUS (place p (adjust n) t) h = 0"
    using STATUS_adjust by (simp add: place_keeps_FREE)
  with 2 c show ?thesis by simp
next
  case (3 t)
  note c = call_get_free_block_state [OF 3(1)]
  from c assms(2) have "GET_STATUS t h = 0"
    by (simp add: GET_STATUS_def GET_def)
  with 3(2) have "GET_STATUS s' h = 0"
    using STATUS_adjust assms(3,4,5) by (rule extend_keeps_FREE)
  with mm_initialized_extend [OF 3(2)] c show ?thesis by simp
qed

lemma STATUS_zero [simp]: "STATUS 0 = 0"
  by (simp add: STATUS_def)

lemma zero_words_keeps_FREE: "STATUS (m a) = 0 \<Longrightarrow> STATUS (zero_words k p m a) = 0"
proof (induction k arbitrary: p m)
  case 0
  then show ?case by simp
next
  case (Suc k)
  from Suc.prems have "STATUS ((m(p := 0)) a) = 0"
    by simp
  then have "STATUS (zero_words k (p + 8) (m(p := 0)) a) = 0"
    by (rule Suc.IH)
  then show ?case by simp
qed

lemma zero_fill_keeps_FREE:
  assumes "STATUS (m a) = 0"
  shows "STATUS (zero_fill p n m a) = 0"
proof -
  define q where "q = p + 8 * (n div 8)"
  define m' where "m' = zero_words (unat n div 8) p m"
  have z: "STATUS (m' a) = 0"
    unfolding m'_def using assms by (rule zero_words_keeps_FREE)
  have "zero_fill p n m a =
          (if unat n mod 8 = 0 then m' else m'(q := m' q AND NOT (mask (8 * (unat n mod 8))))) a"
    by (simp only: zero_fill_def Let_def m'_def q_def)
  moreover have "STATUS ((if unat n mod 8 = 0 then m'
      else m'(q := m' q AND NOT (mask (8 * (unat n mod 8))))) a) = 0"
    using z by (cases "a = q") simp_all
  ultimately show ?thesis
    by (simp only:)
qed

lemma mm_calloc_keeps_FREE:
  assumes "mm_calloc D nmemb sz s = Some (Inr (bp, u))"
    and "mm_malloc D (nmemb * sz) s = Some (Inr (bp, v))"
    and "GET_STATUS s h = 0" "h \<noteq> HDRP bp" "h \<noteq> FTRP v bp" "h \<noteq> heap_end v"
  shows "GET_STATUS u h = 0 \<and> mm_initialized u = mm_initialized s"
proof -
  from assms(2-6) have v: "GET_STATUS v h = 0 \<and> mm_initialized v = mm_initialized s"
    by (rule mm_malloc_keeps_FREE)
  from assms(1,2) have "u = v \<or> u = v\<lparr>mem := zero_fill bp (nmemb * sz) (mem v)\<rparr>"
    by (auto simp: mm_calloc_def memset_zero_def split: if_splits)
  with v show ?thesis
    by (auto simp: GET_STATUS_def GET_def zero_fill_keeps_FREE)
qed

lemma no_reuse_keeps_FREE:
  assumes "no_reuse D h s u" "GET_STATUS s h = 0"
  shows "GET_STATUS u h = 0 \<and> mm_initialized u = mm_initialized s"
  using assms
proof (induction rule: no_reuse.induct)
  case (none s)
  then show ?case by simp
next
  case (release s t q u)
  then have "GET_STATUS t h = 0 \<and> mm_initialized t = mm_initialized s"
    by simp
  with release.hyps(2) show ?case
    by (simp add: mm_free_keeps_FREE mm_free_initialized)
next
  case (allocate s t n bp u)
  then have t: "GET_STATUS t h = 0 \<and> mm_initialized t = mm_initialized s"
    by simp
  then have "GET_STATUS t h = 0" ..
  with allocate.hyps(2) have "GET_STATUS u h = 0 \<and> mm_initialized u = mm_initialized t"
    using allocate.hyps(3-5) by (rule mm_malloc_keeps_FREE)
  with t show ?case by simp
next
  case (allocate_zeroed s t nmemb sz bp u v)
  then have t: "GET_STATUS t h = 0 \<and> mm_initialized t = mm_initialized s"
    by simp
  then have "GET_STATUS t h = 0" ..
  with allocate_zeroed.hyps(2,3) have "GET_STATUS u h = 0 \<and> mm_initialized u = mm_initialized t"
    using allocate_zeroed.hyps(4-6) by (rule mm_calloc_keeps_FREE)
  with t show ?case by simp
qed

text \<open>
  C6. Releasing a pointer whose header tag reads FREE terminates the process with the
  double-free diagnostic. After a release that returned, the header tag of the block
  reads FREE, and it still does after any further calls that returned, as long as no
  allocation among them reused the header word as a tag: releasing the same pointer
  again takes the fatal path.
\<close>

theorem double_free_is_fatal:
  "(mm_initialized s \<noteq> 0 \<and> GET_STATUS s (HDRP ptr) = FREE \<longrightarrow>
      mm_free ptr s = Inl (PANIC ''You're trying to free already free block.'')) \<and>
   (mm_free ptr s = Inr s' \<and> no_reuse D (HDRP ptr) s' s'' \<longrightarrow>
      mm_free ptr s'' = Inl (PANIC ''You're trying to free already free block.''))"
proof (intro conjI impI)
  assume "mm_initialized s \<noteq> 0 \<and> GET_STATUS s (HDRP ptr) = FREE"
  then show "mm_free ptr s = Inl (PANIC ''You're trying to free already free block.'')"
    by (simp add: mm_free_of_FREE)
next
  assume a: "mm_free ptr s = Inr s' \<and> no_reuse D (HDRP ptr) s' s''"
  then have f: "GET_STATUS s' (HDRP ptr) = 0" and i: "mm_initialized s' \<noteq> 0"
    using mm_free_leaves_FREE mm_free_initialized mm_free_Inr_initialized by fastforce+
  from a have "no_reuse D (HDRP ptr) s' s''" ..
  then have "GET_STATUS s'' (HDRP ptr) = 0 \<and> mm_initialized s'' = mm_initialized s'"
    using f by (rule no_reuse_keeps_FREE)
  with i show "mm_free ptr s'' = Inl (PANIC ''You're trying to free already free block.'')"
    by (simp add: mm_free_of_FREE FREE_def)
qed

theorem double_free_is_fatal_witness:
  "three_blocks = Some (Inr (0x10A8, snd (returned three_blocks))) \<and>
   mm_free 0x10A8 (snd (returned three_blocks)) = Inr (returned third_released) \<and>
   mm_malloc ds_unix 100 (returned third_released) =
     Some (Inr (0x10E8, snd (returned (mm_malloc ds_unix 100 (returned third_released))))) \<and>
   mm_free 0x10E8 (snd (returned (mm_malloc ds_unix 100 (returned third_released)))) =
     Inr (returned third_released_later) \<and>
   no_reuse ds_unix (HDRP 0x10A8) (returned third_released) (returned third_released_later) \<and>
   mm_initialized (returned third_released_later) \<noteq> 0 \<and>
   GET_STATUS (returned third_released_later) (HDRP 0x10A8) = FREE \<and>
   mm_free 0x10A8 (returned third_released) =
     Inl (PANIC ''You're trying to free already free block.'') \<and>
   mm_free 0x10A8 (returned third_released_later) =
     Inl (PANIC ''You're trying to free already free block.'')"
proof -
  let ?s0 = "snd (returned three_blocks)"
  let ?s1 = "returned third_released"
  let ?s2 = "snd (returned (mm_malloc ds_unix 100 ?s1))"
  let ?s3 = "returned third_released_later"
  have r: "three_blocks = Some (Inr (0x10A8, ?s0))"
    by code_simp
  have f1: "mm_free 0x10A8 ?s0 = Inr ?s1"
    by code_simp
  have m: "mm_malloc ds_unix 100 ?s1 = Some (Inr (0x10E8, ?s2))"
    by code_simp
  have f2: "mm_free 0x10E8 ?s2 = Inr ?s3"
    by code_simp
  have d: "HDRP 0x10A8 \<noteq> HDRP 0x10E8" "HDRP 0x10A8 \<noteq> FTRP ?s2 0x10E8" "HDRP 0x10A8 \<noteq> heap_end ?s2"
    by code_simp+
  have "no_reuse ds_unix (HDRP 0x10A8) ?s1 ?s1"
    by (rule no_reuse.none)
  then have "no_reuse ds_unix (HDRP 0x10A8) ?s1 ?s2"
    using m d by (rule no_reuse.allocate)
  then have n: "no_reuse ds_unix (HDRP 0x10A8) ?s1 ?s3"
    using f2 by (rule no_reuse.release)
  have i: "mm_initialized ?s3 \<noteq> 0"
    by code_simp
  have g: "GET_STATUS ?s3 (HDRP 0x10A8) = FREE"
    by code_simp
  from double_free_is_fatal [of ?s0 "0x10A8" ?s1 ds_unix ?s1] f1 no_reuse.none
  have p1: "mm_free 0x10A8 ?s1 = Inl (PANIC ''You're trying to free already free block.'')"
    by blast
  from double_free_is_fatal [of ?s0 "0x10A8" ?s1 ds_unix ?s3] f1 n
  have p2: "mm_free 0x10A8 ?s3 = Inl (PANIC ''You're trying to free already free block.'')"
    by blast
  show ?thesis
    by (intro conjI) (rule r f1 m f2 n i g p1 p2)+
qed

section \<open>Where the code departs from its description\<close>

subsection \<open>Best fit and the block that spans the heap\<close>

text \<open>
  C1. Best fit must find a free block that satisfies the request whenever there is
  one. The code does not: the running minimum starts at \<open>HEAP_SIZE\<close> and a candidate
  must be strictly smaller, so the free block that spans the whole heap is never
  chosen. Right after \<^verbatim>\<open>mm_init(ap_BestFit)\<close> the heap is one free block of 4032
  bytes; a search for 64 bytes (a request of 40) returns \<^verbatim>\<open>NULL\<close>, where first fit
  returns the block.
\<close>

theorem bf_misses_initial_block:
  "fresh ds_unix ap_BestFit = Some (Inr (returned (fresh ds_unix ap_BestFit))) \<and>
   heap_start (returned (fresh ds_unix ap_BestFit)) = 0x1020 \<and>
   heap_end (returned (fresh ds_unix ap_BestFit)) = 0x1FE0 \<and>
   HEAP_SIZE (returned (fresh ds_unix ap_BestFit)) = 4032 \<and>
   GET_STATUS (returned (fresh ds_unix ap_BestFit)) 0x1020 = FREE \<and>
   GET_SIZE (returned (fresh ds_unix ap_BestFit)) 0x1020 = 4032 \<and>
   adjust 40 = 64 \<and>
   bf_get_free_block 64 (returned (fresh ds_unix ap_BestFit)) = Some (Inr NULL) \<and>
   ff_get_free_block 64 (returned (fresh ds_unix ap_BestFit)) = Some (Inr 0x1028)"
  by code_simp

subsection \<open>The end sentinel that growth leaves behind\<close>

text \<open>
  C2. After a request that extends the heap, \<^verbatim>\<open>mm_check\<close> should count no error and
  stop at the new \<open>heap_end\<close>. It does not. \<^verbatim>\<open>mm_malloc\<close> writes the header of the new
  block one word before the address that \<^verbatim>\<open>ds_sbrk\<close> returned, not at the old
  \<open>heap_end\<close>, where the old end sentinel (size 0, allocated) stays. The walk reaches
  that tag, counts a mismatch with the word before it, and stops there. This holds for
  a provider that returns the previous end of the segment and for one that returns the
  new end.
\<close>

theorem growth_breaks_check:
  "and_then (fresh ds_unix ap_FirstFit) mm_check = Some (Inr (0x1FE0, 0, True)) \<and>
   and_then (grown ds_unix ap_FirstFit) (\<lambda>(bp, s).
     and_then (mm_check s) (\<lambda>(p, errors, coherent).
       Some (Inr (bp, heap_end s, GET s (HDRP bp), GET s (heap_end s), p, errors, coherent)))) =
     Some (Inr (0x2000, 0x3380, 5025, 1, 0x1FE0, 1, False)) \<and>
   and_then (grown ds_spec ap_FirstFit) (\<lambda>(bp, s).
     and_then (mm_check s) (\<lambda>(p, errors, coherent).
       Some (Inr (bp, heap_end s, GET s (HDRP bp), GET s (heap_end s), p, errors, coherent)))) =
     Some (Inr (0x33A0, 0x3380, 5025, 1, 0x1FE0, 1, False))"
  by code_simp

lemma ff_loop_stall:
  assumes "p < heap_end s" "GET_SIZE s p = 0" "sz > GET_SIZE s p \<or> GET_STATUS s p = ALLOC"
  shows "ff_loop s sz p = None"
proof (rule ccontr)
  assume "ff_loop s sz p \<noteq> None"
  then obtain r where r: "ff_loop s sz p = Some r"
    by blast
  have "\<not> (p < heap_end s \<and> GET_SIZE s p = 0 \<and> (sz > GET_SIZE s p \<or> GET_STATUS s p = ALLOC))"
  proof (rule ff_loop.raw_induct [where P = "\<lambda>s sz p r.
      \<not> (p < heap_end s \<and> GET_SIZE s p = 0 \<and> (sz > GET_SIZE s p \<or> GET_STATUS s p = ALLOC))", OF _ r])
    fix loop :: "'a mm_state \<Rightarrow> 64 word \<Rightarrow> addr \<Rightarrow> addr option" and s sz p r
    assume IH: "\<And>s sz p r. loop s sz p = Some r \<Longrightarrow>
        \<not> (p < heap_end s \<and> GET_SIZE s p = 0 \<and> (sz > GET_SIZE s p \<or> GET_STATUS s p = ALLOC))"
      and step: "(if p < heap_end s \<and> (GET_SIZE s p < sz \<or> GET_STATUS s p = ALLOC)
                  then loop s sz (p + GET_SIZE s p) else Some p) = Some r"
    show "\<not> (p < heap_end s \<and> GET_SIZE s p = 0 \<and> (sz > GET_SIZE s p \<or> GET_STATUS s p = ALLOC))"
    proof
      assume st: "p < heap_end s \<and> GET_SIZE s p = 0 \<and> (sz > GET_SIZE s p \<or> GET_STATUS s p = ALLOC)"
      with step have "loop s sz (p + 0) = Some r"
        by (simp split: if_splits)
      then have "loop s sz p = Some r"
        by simp
      from IH [OF this] st show False
        by blast
    qed
  qed
  with assms show False
    by blast
qed

lemma nf_loop_stall:
  assumes "nf_ptr s < heap_end s" "GET_SIZE s (nf_ptr s) = 0"
    "sz > GET_SIZE s (nf_ptr s) \<or> GET_STATUS s (nf_ptr s) = ALLOC"
  shows "nf_loop sz s = None"
proof (rule ccontr)
  assume "nf_loop sz s \<noteq> None"
  then obtain r where r: "nf_loop sz s = Some r"
    by blast
  have "\<not> (nf_ptr s < heap_end s \<and> GET_SIZE s (nf_ptr s) = 0 \<and>
           (sz > GET_SIZE s (nf_ptr s) \<or> GET_STATUS s (nf_ptr s) = ALLOC))"
  proof (rule nf_loop.raw_induct [where P = "\<lambda>sz s r.
      \<not> (nf_ptr s < heap_end s \<and> GET_SIZE s (nf_ptr s) = 0 \<and>
           (sz > GET_SIZE s (nf_ptr s) \<or> GET_STATUS s (nf_ptr s) = ALLOC))", OF _ r])
    fix loop :: "64 word \<Rightarrow> 'a mm_state \<Rightarrow> 'a mm_state option" and sz s r
    assume IH: "\<And>sz s r. loop sz s = Some r \<Longrightarrow>
        \<not> (nf_ptr s < heap_end s \<and> GET_SIZE s (nf_ptr s) = 0 \<and>
           (sz > GET_SIZE s (nf_ptr s) \<or> GET_STATUS s (nf_ptr s) = ALLOC))"
      and step: "(if nf_ptr s < heap_end s \<and>
                     (GET_SIZE s (nf_ptr s) < sz \<or> GET_STATUS s (nf_ptr s) = ALLOC)
                  then loop sz (s\<lparr>nf_ptr := nf_ptr s + GET_SIZE s (nf_ptr s)\<rparr>)
                  else Some s) = Some r"
    show "\<not> (nf_ptr s < heap_end s \<and> GET_SIZE s (nf_ptr s) = 0 \<and>
           (sz > GET_SIZE s (nf_ptr s) \<or> GET_STATUS s (nf_ptr s) = ALLOC))"
    proof
      assume st: "nf_ptr s < heap_end s \<and> GET_SIZE s (nf_ptr s) = 0 \<and>
           (sz > GET_SIZE s (nf_ptr s) \<or> GET_STATUS s (nf_ptr s) = ALLOC)"
      with step have "loop sz (s\<lparr>nf_ptr := nf_ptr s + 0\<rparr>) = Some r"
        by (simp split: if_splits)
      then have "loop sz s = Some r"
        by simp
      from IH [OF this] st show False
        by blast
    qed
  qed
  with assms show False
    by blast
qed

lemma bf_loop_stall:
  assumes "p < heap_end s" "GET_SIZE s p = 0"
  shows "bf_loop s sz p minSize bf_ptr = None"
proof (rule ccontr)
  assume "bf_loop s sz p minSize bf_ptr \<noteq> None"
  then obtain r where r: "bf_loop s sz p minSize bf_ptr = Some r"
    by blast
  have "\<not> (p < heap_end s \<and> GET_SIZE s p = 0)"
  proof (rule bf_loop.raw_induct [where P = "\<lambda>s sz p minSize bf_ptr r.
      \<not> (p < heap_end s \<and> GET_SIZE s p = 0)", OF _ r])
    fix loop :: "'a mm_state \<Rightarrow> 64 word \<Rightarrow> addr \<Rightarrow> 64 word \<Rightarrow> addr \<Rightarrow> addr option"
      and s sz p minSize bf_ptr r
    assume IH: "\<And>s sz p minSize bf_ptr r. loop s sz p minSize bf_ptr = Some r \<Longrightarrow>
        \<not> (p < heap_end s \<and> GET_SIZE s p = 0)"
      and step: "(if p < heap_end s
                  then if sz \<le> GET_SIZE s p \<and> GET_STATUS s p = FREE \<and> GET_SIZE s p < minSize
                       then loop s sz (p + GET_SIZE s p) (GET_SIZE s p) p
                       else loop s sz (p + GET_SIZE s p) minSize bf_ptr
                  else Some bf_ptr) = Some r"
    show "\<not> (p < heap_end s \<and> GET_SIZE s p = 0)"
    proof
      assume st: "p < heap_end s \<and> GET_SIZE s p = 0"
      with step have "loop s sz (p + 0) 0 p = Some r \<or> loop s sz (p + 0) minSize bf_ptr = Some r"
        by (simp split: if_splits)
      then have "loop s sz p 0 p = Some r \<or> loop s sz p minSize bf_ptr = Some r"
        by simp
      with IH st show False
        by blast
    qed
  qed
  with assms show False
    by blast
qed


lemma ff_get_free_block_stall:
  assumes "mm_initialized s \<noteq> 0"
    and "heap_start s < heap_end s"
    and "sz > GET_SIZE s (heap_start s)"
    and "heap_start s + GET_SIZE s (heap_start s) < heap_end s"
    and "GET_SIZE s (heap_start s + GET_SIZE s (heap_start s)) = 0"
  shows "ff_get_free_block sz s = None"
proof -
  let ?p = "heap_start s"
  let ?q = "?p + GET_SIZE s ?p"
  from assms(3) have "sz > 0"
    by (rule le_less_trans [rotated]) simp
  with assms(5) have "sz > GET_SIZE s ?q \<or> GET_STATUS s ?q = ALLOC"
    by simp
  with assms(4,5) have "ff_loop s sz ?q = None"
    by (rule ff_loop_stall)
  moreover from assms(2,3) have "ff_loop s sz ?p = ff_loop s sz ?q"
    by (subst ff_loop.simps) simp
  ultimately show ?thesis
    using assms(1) by (simp add: ff_get_free_block_def)
qed

lemma bf_get_free_block_stall:
  assumes "mm_initialized s \<noteq> 0"
    and "heap_start s < heap_end s"
    and "heap_start s + GET_SIZE s (heap_start s) < heap_end s"
    and "GET_SIZE s (heap_start s + GET_SIZE s (heap_start s)) = 0"
  shows "bf_get_free_block sz s = None"
proof -
  let ?p = "heap_start s"
  let ?q = "?p + GET_SIZE s ?p"
  from assms(3,4) have "bf_loop s sz ?q m b = None" for m b
    by (rule bf_loop_stall)
  with assms(2) have "bf_loop s sz ?p (HEAP_SIZE s) NULL = None"
    by (subst bf_loop.simps) simp
  then show ?thesis
    using assms(1) by (simp add: bf_get_free_block_def)
qed

lemma nf_get_free_block_stall:
  assumes "mm_initialized s \<noteq> 0"
    and "nf_ptr s = NULL"
    and "heap_start s < heap_end s"
    and "sz > GET_SIZE s (heap_start s)"
    and "heap_start s + GET_SIZE s (heap_start s) < heap_end s"
    and "GET_SIZE s (heap_start s + GET_SIZE s (heap_start s)) = 0"
  shows "nf_get_free_block sz s = None"
proof -
  let ?p = "heap_start s"
  let ?q = "?p + GET_SIZE s ?p"
  let ?s0 = "s\<lparr>nf_ptr := ?p\<rparr>"
  let ?s1 = "s\<lparr>nf_ptr := ?q\<rparr>"
  have g: "GET_SIZE (s\<lparr>nf_ptr := x\<rparr>) a = GET_SIZE s a" for x a
    by (simp add: GET_SIZE_def GET_def)
  from assms(4) have "sz > 0"
    by (rule le_less_trans [rotated]) simp
  with assms(6) have "sz > GET_SIZE ?s1 (nf_ptr ?s1) \<or> GET_STATUS ?s1 (nf_ptr ?s1) = ALLOC"
    by (simp add: g)
  moreover from assms(5) have "nf_ptr ?s1 < heap_end ?s1"
    by simp
  moreover from assms(6) have "GET_SIZE ?s1 (nf_ptr ?s1) = 0"
    by (simp add: g)
  ultimately have "nf_loop sz ?s1 = None"
    by (intro nf_loop_stall)
  moreover from assms(3,4) have "nf_loop sz ?s0 = nf_loop sz ?s1"
    by (subst nf_loop.simps) (simp add: g)
  ultimately show ?thesis
    using assms(1,2) by (simp add: nf_get_free_block_def)
qed

lemma mm_malloc_stall:
  assumes "mm_initialized s \<noteq> 0" "n \<noteq> 0" "call_get_free_block (adjust n) s = None"
  shows "mm_malloc D n s = None"
  using assms by (simp add: mm_malloc_def)

text \<open>
  C3. Every search should terminate in every state that a sequence of calls can reach.
  It does not: after the heap has been extended, the old end sentinel lies inside the
  heap, and a scan that arrives at it adds its size 0 forever. Under each of the three
  policies \<^verbatim>\<open>mm_init\<close>, \<^verbatim>\<open>mm_malloc(5000)\<close>, \<^verbatim>\<open>mm_malloc(5000)\<close> does not return from
  the second request.
\<close>

theorem search_after_growth_diverges:
  "grown ds_unix ap_FirstFit = Some (Inr (0x2000, snd (returned (grown ds_unix ap_FirstFit)))) \<and>
   and_then (grown ds_unix ap_FirstFit) (\<lambda>(bp, s). mm_malloc ds_unix 5000 s) = None \<and>
   grown ds_unix ap_NextFit = Some (Inr (0x2000, snd (returned (grown ds_unix ap_NextFit)))) \<and>
   and_then (grown ds_unix ap_NextFit) (\<lambda>(bp, s). mm_malloc ds_unix 5000 s) = None \<and>
   grown ds_unix ap_BestFit = Some (Inr (0x2000, snd (returned (grown ds_unix ap_BestFit)))) \<and>
   and_then (grown ds_unix ap_BestFit) (\<lambda>(bp, s). mm_malloc ds_unix 5000 s) = None \<and>
   grown ds_spec ap_FirstFit = Some (Inr (0x33A0, snd (returned (grown ds_spec ap_FirstFit)))) \<and>
   and_then (grown ds_spec ap_FirstFit) (\<lambda>(bp, s). mm_malloc ds_spec 5000 s) = None"
proof -
  have stuck: "and_then (grown D ap) (\<lambda>(bp, s). mm_malloc D 5000 s) = None"
    if g: "grown D ap = Some (Inr (bp, s))"
      and c: "call_get_free_block (adjust 5000) s = None"
      and i: "mm_initialized s \<noteq> 0"
    for D ap bp s
  proof -
    from i c have "mm_malloc D 5000 s = None"
      by (intro mm_malloc_stall) simp_all
    then show ?thesis
      by (simp add: g and_then_def)
  qed
  let ?F = "snd (returned (grown ds_unix ap_FirstFit))"
  let ?N = "snd (returned (grown ds_unix ap_NextFit))"
  let ?B = "snd (returned (grown ds_unix ap_BestFit))"
  have "ff_get_free_block (adjust 5000) ?F = None"
    by (rule ff_get_free_block_stall) code_simp+
  moreover have "get_free_block ?F = Some ap_FirstFit"
    by code_simp
  ultimately have "call_get_free_block (adjust 5000) ?F = None"
    by (simp add: call_get_free_block_def)
  moreover have gF: "grown ds_unix ap_FirstFit = Some (Inr (0x2000, ?F))" and "mm_initialized ?F \<noteq> 0"
    by code_simp+
  ultimately have F: "and_then (grown ds_unix ap_FirstFit) (\<lambda>(bp, s). mm_malloc ds_unix 5000 s) = None"
    by (intro stuck)
  have "nf_get_free_block (adjust 5000) ?N = None"
    by (rule nf_get_free_block_stall) code_simp+
  moreover have "get_free_block ?N = Some ap_NextFit"
    by code_simp
  ultimately have "call_get_free_block (adjust 5000) ?N = None"
    by (simp add: call_get_free_block_def)
  moreover have gN: "grown ds_unix ap_NextFit = Some (Inr (0x2000, ?N))" and "mm_initialized ?N \<noteq> 0"
    by code_simp+
  ultimately have N: "and_then (grown ds_unix ap_NextFit) (\<lambda>(bp, s). mm_malloc ds_unix 5000 s) = None"
    by (intro stuck)
  have "bf_get_free_block (adjust 5000) ?B = None"
    by (rule bf_get_free_block_stall) code_simp+
  moreover have "get_free_block ?B = Some ap_BestFit"
    by code_simp
  ultimately have "call_get_free_block (adjust 5000) ?B = None"
    by (simp add: call_get_free_block_def)
  moreover have gB: "grown ds_unix ap_BestFit = Some (Inr (0x2000, ?B))" and "mm_initialized ?B \<noteq> 0"
    by code_simp+
  ultimately have B: "and_then (grown ds_unix ap_BestFit) (\<lambda>(bp, s). mm_malloc ds_unix 5000 s) = None"
    by (intro stuck)
  let ?P = "snd (returned (grown ds_spec ap_FirstFit))"
  have "ff_get_free_block (adjust 5000) ?P = None"
    by (rule ff_get_free_block_stall) code_simp+
  moreover have "get_free_block ?P = Some ap_FirstFit"
    by code_simp
  ultimately have "call_get_free_block (adjust 5000) ?P = None"
    by (simp add: call_get_free_block_def)
  moreover have gP: "grown ds_spec ap_FirstFit = Some (Inr (0x33A0, ?P))" and "mm_initialized ?P \<noteq> 0"
    by code_simp+
  ultimately have P: "and_then (grown ds_spec ap_FirstFit) (\<lambda>(bp, s). mm_malloc ds_spec 5000 s) = None"
    by (intro stuck)
  show ?thesis
    by (intro conjI) (rule gF F gN N gB B gP P)+
qed

subsection \<open>Coalescing\<close>

text \<open>
  C4. After a release, a scan of the heap should never meet two FREE blocks in a row.
  It does. \<^verbatim>\<open>mm_free\<close> takes the headers of the neighbours with \<^verbatim>\<open>HDRP\<close> applied to
  pointers of type \<^verbatim>\<open>TYPE*\<close>, which is 64 bytes before the block pointer and not 8,
  so the status and size it reads are payload words. After three zeroed blocks of 64
  bytes, releasing the third leaves it FREE with size 64, directly before the FREE
  remainder of 3840 bytes; the release has also stored 64 in the payload of the first
  block, which is allocated.
\<close>

theorem release_leaves_adjacent_free_blocks:
  "three_blocks = Some (Inr (0x10A8, snd (returned three_blocks))) \<and>
   GET (snd (returned three_blocks)) (HDRP 0x10A8) = PACK 64 ALLOC \<and>
   GET (snd (returned three_blocks)) 0x10E0 = PACK 3840 FREE \<and>
   third_released = Some (Inr (returned third_released)) \<and>
   visited (returned third_released) 0x10A0 \<and>
   GET (returned third_released) 0x10A0 = PACK 64 FREE \<and>
   visited (returned third_released) (0x10A0 + 64) \<and>
   GET (returned third_released) (0x10A0 + 64) = PACK 3840 FREE \<and>
   mem (snd (returned three_blocks)) 0x1028 = 0 \<and>
   mem (returned third_released) 0x1028 = 64 \<and>
   mm_check (returned third_released) = Some (Inr (0x1FE0, 0, True))"
proof -
  let ?S = "returned third_released"
  have v0: "visited ?S (heap_start ?S)"
    by (rule visited.first) code_simp
  have "visited ?S (heap_start ?S + GET_SIZE ?S (heap_start ?S))"
    using v0 by (rule visited.after) code_simp
  moreover have "heap_start ?S + GET_SIZE ?S (heap_start ?S) = 0x1060"
    by code_simp
  ultimately have v1: "visited ?S 0x1060"
    by (simp only:)
  have "visited ?S (0x1060 + GET_SIZE ?S 0x1060)"
    using v1 by (rule visited.after) code_simp
  moreover have "0x1060 + GET_SIZE ?S 0x1060 = 0x10A0"
    by code_simp
  ultimately have v2: "visited ?S 0x10A0"
    by (simp only:)
  have "visited ?S (0x10A0 + GET_SIZE ?S 0x10A0)"
    using v2 by (rule visited.after) code_simp
  moreover have "0x10A0 + GET_SIZE ?S 0x10A0 = 0x10A0 + 64"
    by code_simp
  ultimately have v3: "visited ?S (0x10A0 + 64)"
    by (simp only:)
  have r: "three_blocks = Some (Inr (0x10A8, snd (returned three_blocks)))"
    "GET (snd (returned three_blocks)) (HDRP 0x10A8) = PACK 64 ALLOC"
    "GET (snd (returned three_blocks)) 0x10E0 = PACK 3840 FREE"
    "third_released = Some (Inr ?S)"
    "GET ?S 0x10A0 = PACK 64 FREE"
    "GET ?S (0x10A0 + 64) = PACK 3840 FREE"
    "mem (snd (returned three_blocks)) 0x1028 = 0"
    "mem ?S 0x1028 = 64"
    "mm_check ?S = Some (Inr (0x1FE0, 0, True))"
    by code_simp+
  show ?thesis
    by (intro conjI) (rule r v2 v3)+
qed

end
